theory Spec2Isabelle
  imports Main "HOL-Library.Char_ord" "HOL-Library.List_Lexorder"
begin

section \<open>Text and cells\<close>

text \<open>
  A cell of an input table is either missing (pandas' NaN / None) or a text.  Texts are
  \<^typ>\<open>string\<close>s over ASCII code points; a numeric cell stands for its \<open>str()\<close> rendering.
  Strings are ordered as Python orders them: lexicographically by code point.
\<close>

type_synonym cell = "string option"

definition is_space :: "char \<Rightarrow> bool" where
  \<comment> \<open>\<open>str.isspace\<close> on ASCII: TAB, LF, VT, FF, CR, FS, GS, RS, US and the blank\<close>
  "is_space c = (let n = (of_char c :: nat) in (9 \<le> n \<and> n \<le> 13) \<or> (28 \<le> n \<and> n \<le> 32))"

definition strip_chars :: "(char \<Rightarrow> bool) \<Rightarrow> string \<Rightarrow> string" where
  \<comment> \<open>\<open>s.strip(chars)\<close>: drop the characters of the class at both ends\<close>
  "strip_chars P s = rev (dropWhile P (rev (dropWhile P s)))"

definition strip :: "string \<Rightarrow> string" where
  "strip s = strip_chars is_space s"

definition lower_char :: "char \<Rightarrow> char" where
  "lower_char c = (let n = (of_char c :: nat) in if 65 \<le> n \<and> n \<le> 90 then char_of (n + 32) else c)"

definition lower :: "string \<Rightarrow> string" where
  "lower s = map lower_char s"

definition clean_str :: "cell \<Rightarrow> string" where
  "clean_str x = (case x of None \<Rightarrow> [] | Some s \<Rightarrow> strip s)"

section \<open>Email standardisation and validation\<close>

definition is_wrapper :: "char \<Rightarrow> bool" where
  \<comment> \<open>the characters of \<open>" <>\"'"\<close>: blank, angle brackets, double and single quote\<close>
  "is_wrapper c = (c = CHR '' '' \<or> c = CHR ''<'' \<or> c = CHR ''>'' \<or> c = CHR 0x22 \<or> c = CHR 0x27)"

definition standardize_email :: "cell \<Rightarrow> string" where
  "standardize_email raw = strip_chars is_wrapper (lower (clean_str raw))"

definition split_once :: "char \<Rightarrow> string \<Rightarrow> string \<times> string" where
  \<comment> \<open>\<open>s.split(sep, 1)\<close> of a string that holds the separator: the text before the first
      separator and the text after it\<close>
  "split_once sep s = (takeWhile (\<lambda>c. c \<noteq> sep) s, drop 1 (dropWhile (\<lambda>c. c \<noteq> sep) s))"

definition is_valid_email :: "cell \<Rightarrow> bool" where
  "is_valid_email email =
     (let e = standardize_email email in
      if e = [] \<or> CHR '' '' \<in> set e then False
      else if count_list e (CHR ''@'') \<noteq> 1 then False
      else (case split_once (CHR ''@'') e of (local_part, domain) \<Rightarrow>
        if local_part = [] \<or> domain = [] then False
        else if CHR ''.'' \<notin> set domain then False
        else True))"

section \<open>Validation of the tags table\<close>

text \<open>
  A data frame as the validator sees it: an index of \<open>nrows\<close> rows and named columns of
  values.  \<open>is_numeric\<close> stands for \<open>pd.to_numeric(v, errors="coerce")\<close> not being NaN.
\<close>

record 'v frame =
  nrows :: nat
  cols :: "(string \<times> 'v list) list"

definition frame_empty :: "'v frame \<Rightarrow> bool" where
  \<comment> \<open>\<open>df.empty\<close>: some axis has length 0\<close>
  "frame_empty df = (nrows df = 0 \<or> cols df = [])"

definition has_column :: "'v frame \<Rightarrow> string \<Rightarrow> bool" where
  "has_column df c = (c \<in> fst ` set (cols df))"

definition column :: "'v frame \<Rightarrow> string \<Rightarrow> 'v list" where
  "column df c = (case map_of (cols df) c of None \<Rightarrow> [] | Some vs \<Rightarrow> vs)"

definition validate_tags :: "('v \<Rightarrow> bool) \<Rightarrow> 'v frame \<Rightarrow> string list" where
  "validate_tags is_numeric df =
     (if frame_empty df then []
      else
        (let issues1 = concat (map (\<lambda>col. if \<not> has_column df col
                                            then [''Missing required column: '' @ col] else [])
                                   [''CB Tag Name'', ''CB Tag Count''])
         in if has_column df ''CB Tag Count''
            then (let bad = filter (\<lambda>v. \<not> is_numeric v) (column df ''CB Tag Count'')
                  in if bad \<noteq> [] then issues1 @ [''Non-numeric CB Tag Count values found'']
                     else issues1)
            else issues1))"


section \<open>Tag normalisation\<close>

fun split_on :: "char \<Rightarrow> string \<Rightarrow> string list" where
  \<comment> \<open>\<open>s.split(sep)\<close> for a one-character separator: always at least one piece\<close>
  "split_on sep [] = [[]]"
| "split_on sep (c # cs) =
     (if c = sep then [] # split_on sep cs
      else (case split_on sep cs of [] \<Rightarrow> [[c]] | p # ps \<Rightarrow> (c # p) # ps))"

fun split_tags_loop :: "string list \<Rightarrow> string set \<Rightarrow> string list \<Rightarrow> string list" where
  "split_tags_loop [] seen out = out"
| "split_tags_loop (p # parts) seen out =
     (if p = [] then split_tags_loop parts seen out
      else (let key = lower p in
        if key \<in> seen then split_tags_loop parts seen out
        else split_tags_loop parts (insert key seen) (out @ [p])))"

definition split_tags :: "cell \<Rightarrow> string list" where
  "split_tags raw =
     (let s = clean_str raw in
      if s = [] then []
      else split_tags_loop (map strip (split_on (CHR '','') s)) {} [])"

fun apply_tag_mapping_loop ::
  "(string \<rightharpoonup> string) \<Rightarrow> string list \<Rightarrow> string set \<Rightarrow> string list \<Rightarrow> string list" where
  "apply_tag_mapping_loop mapping [] seen out = out"
| "apply_tag_mapping_loop mapping (t # tags) seen out =
     (let key = lower (strip t);
          mapped = (case mapping key of None \<Rightarrow> t | Some v \<Rightarrow> v);
          mapped_clean = clean_str (Some mapped)
      in if mapped_clean = [] then apply_tag_mapping_loop mapping tags seen out
         else (let k2 = lower mapped_clean in
           if k2 \<in> seen then apply_tag_mapping_loop mapping tags seen out
           else apply_tag_mapping_loop mapping tags (insert k2 seen) (out @ [mapped_clean])))"

definition apply_tag_mapping :: "string list \<Rightarrow> (string \<rightharpoonup> string) \<Rightarrow> string list" where
  "apply_tag_mapping tags mapping = apply_tag_mapping_loop mapping tags {} []"

subsection \<open>The normalisation as the specification words it\<close>

fun dedupe_ci :: "string list \<Rightarrow> string list" where
  \<comment> \<open>de-duplicate case-insensitively, keeping the first-seen casing and the order\<close>
  "dedupe_ci [] = []"
| "dedupe_ci (x # xs) = x # dedupe_ci (filter (\<lambda>y. lower y \<noteq> lower x) xs)"

definition spec_local_tags :: "string \<Rightarrow> string list" where
  \<comment> \<open>split on comma, trim each piece, drop empty pieces, de-duplicate\<close>
  "spec_local_tags raw =
     dedupe_ci (filter (\<lambda>p. p \<noteq> []) (map strip (split_on (CHR '','') raw)))"

definition spec_map_tag :: "(string \<rightharpoonup> string) \<Rightarrow> string \<Rightarrow> string" where
  \<comment> \<open>look the lower-cased tag up; an unmapped tag passes through unchanged\<close>
  "spec_map_tag mapping t = (case mapping (lower t) of None \<Rightarrow> t | Some v \<Rightarrow> v)"

definition spec_final_tags :: "(string \<rightharpoonup> string) \<Rightarrow> string \<Rightarrow> string list" where
  \<comment> \<open>map each local tag, drop the tags mapped to the empty string, de-duplicate again\<close>
  "spec_final_tags mapping raw =
     dedupe_ci (filter (\<lambda>t. t \<noteq> []) (map (spec_map_tag mapping) (spec_local_tags raw)))"

definition map_tag_trimmed :: "(string \<rightharpoonup> string) \<Rightarrow> string \<Rightarrow> string" where
  \<comment> \<open>as \<open>spec_map_tag\<close>, with the replacement name trimmed, which is what the code does\<close>
  "map_tag_trimmed mapping t = (case mapping (lower t) of None \<Rightarrow> t | Some v \<Rightarrow> strip v)"

definition ci_distinct :: "string list \<Rightarrow> bool" where
  "ci_distinct xs = distinct (map lower xs)"

definition rstrip :: "(char \<Rightarrow> bool) \<Rightarrow> string \<Rightarrow> string" where
  \<comment> \<open>the right half of \<open>strip_chars\<close>, for the proofs\<close>
  "rstrip P s = rev (dropWhile P (rev s))"

section \<open>Tables and library functions\<close>

text \<open>
  The three input tables, one record per row.  \<open>Patron ID\<close> is the text that
  \<open>astype(str)\<close> yields; every other column is a cell as read.
\<close>

record constituent =
  c_patron_id :: string
  c_company :: cell
  c_first_name :: cell
  c_last_name :: cell
  c_salutation :: cell
  c_title :: cell
  c_date_entered :: cell
  c_primary_email :: cell
  c_tags :: cell

record email_row =
  e_patron_id :: string
  e_email :: cell

record donation =
  d_patron_id :: string
  d_amount :: cell
  d_date :: cell
  d_status :: cell

record donations_table =
  has_status :: bool  \<comment> \<open>whether the table has a \<open>Status\<close> column\<close>
  d_rows :: "donation list"

text \<open>
  The functions of pandas and of Python's runtime that the transformation calls are
  parameters.  A timestamp is its count of nanoseconds; \<open>'f\<close> is the type of floats and
  \<open>float_value\<close> places a float that is not NaN in the numeric order.
  \<^item> \<open>to_datetime col i\<close>: entry \<open>i\<close> of \<open>pd.to_datetime(col, errors="coerce")\<close>, \<open>None\<close> for NaT;
  \<^item> \<open>to_datetime_scalar s\<close>: \<open>pd.to_datetime(s, errors="coerce")\<close> of one text;
  \<^item> \<open>date_isoformat t\<close>: \<open>t.date().isoformat()\<close>;
  \<^item> \<open>float_of_string s\<close>: \<open>float(s)\<close>, \<open>None\<close> for a ValueError;
  \<^item> \<open>float_isnan\<close>: \<open>pd.isna\<close> / \<open>np.isnan\<close> on a float;
  \<^item> \<open>float_sum xs\<close>: the float sum of a group, in row order;
  \<^item> \<open>format_comma_2f x\<close>: \<open>format(x, ",.2f")\<close>.
\<close>

record ('f, 'v) pylib =
  to_datetime :: "cell list \<Rightarrow> nat \<Rightarrow> int option"
  to_datetime_scalar :: "string \<Rightarrow> int option"
  date_isoformat :: "int \<Rightarrow> string"
  float_of_string :: "string \<Rightarrow> 'f option"
  float_isnan :: "'f \<Rightarrow> bool"
  float_value :: "'f \<Rightarrow> 'v"
  float_sum :: "'f list \<Rightarrow> 'f"
  format_comma_2f :: "'f \<Rightarrow> string"

subsection \<open>Sorting and dropping duplicates\<close>

fun insort_by :: "('a \<Rightarrow> 'a \<Rightarrow> bool) \<Rightarrow> 'a \<Rightarrow> 'a list \<Rightarrow> 'a list" where
  "insort_by le x [] = [x]"
| "insort_by le x (y # ys) = (if le x y then x # y # ys else y # insort_by le x ys)"

definition sort_values :: "('a \<Rightarrow> 'a \<Rightarrow> bool) \<Rightarrow> 'a list \<Rightarrow> 'a list" where
  \<comment> \<open>\<open>df.sort_values(keys, ascending=...)\<close>: a stable sort; \<open>le\<close> compares two rows by the
      keys in turn, each in its direction\<close>
  "sort_values le xs = foldr (insort_by le) xs []"

fun drop_duplicates_loop :: "('a \<Rightarrow> 'k) \<Rightarrow> 'a list \<Rightarrow> 'k set \<Rightarrow> 'a list" where
  "drop_duplicates_loop key [] seen = []"
| "drop_duplicates_loop key (x # xs) seen =
     (if key x \<in> seen then drop_duplicates_loop key xs seen
      else x # drop_duplicates_loop key xs (insert (key x) seen))"

definition drop_duplicates :: "('a \<Rightarrow> 'k) \<Rightarrow> 'a list \<Rightarrow> 'a list" where
  \<comment> \<open>\<open>drop_duplicates(subset=key, keep="first")\<close>, and the seen-set loops of the source\<close>
  "drop_duplicates key xs = drop_duplicates_loop key xs {}"

section \<open>Identity canonicaliser\<close>

definition nat_last_desc_lt :: "int option \<Rightarrow> int option \<Rightarrow> bool" where
  \<comment> \<open>descending order of timestamps, NaT placed last (\<open>na_position="last"\<close>)\<close>
  "nat_last_desc_lt a b =
     (case a of None \<Rightarrow> False
      | Some x \<Rightarrow> (case b of None \<Rightarrow> True | Some y \<Rightarrow> y < x))"

definition dedupe_le ::
  "constituent \<times> int option \<times> nat \<Rightarrow> constituent \<times> int option \<times> nat \<Rightarrow> bool" where
  \<comment> \<open>the order of \<open>sort_values(["Patron ID", "_date_entered_dt", "_row"],
      ascending=[True, False, False])\<close>\<close>
  "dedupe_le a b =
     (case a of (r1, d1, i1) \<Rightarrow> case b of (r2, d2, i2) \<Rightarrow>
        c_patron_id r1 < c_patron_id r2 \<or>
        (c_patron_id r1 = c_patron_id r2 \<and>
          (nat_last_desc_lt d1 d2 \<or> (d1 = d2 \<and> i2 \<le> i1))))"

definition dedupe_constituents_latest ::
  "('f, 'v) pylib \<Rightarrow> constituent list \<Rightarrow> constituent list" where
  "dedupe_constituents_latest L c =
     (let date_entered_dt = to_datetime L (map c_date_entered c);
          rows = map (\<lambda>i. (c ! i, date_entered_dt i, i)) [0..<length c];
          sorted_rows = sort_values dedupe_le rows;
          kept = drop_duplicates (\<lambda>(r, d, i). c_patron_id r) sorted_rows
      in map fst kept)"

section \<open>Contact resolver\<close>

text \<open>
  The dictionary \<open>candidates\<close> keeps its keys in insertion order: an association list.
\<close>

fun dict_set :: "'k \<Rightarrow> 'v \<Rightarrow> ('k \<times> 'v) list \<Rightarrow> ('k \<times> 'v) list" where
  \<comment> \<open>\<open>d[k] = v\<close>: a new key goes to the end, a present key keeps its place\<close>
  "dict_set k v [] = [(k, v)]"
| "dict_set k v ((k', v') # kvs) =
     (if k' = k then (k, v) # kvs else (k', v') # dict_set k v kvs)"

definition dict_append :: "'k \<Rightarrow> 'a \<Rightarrow> ('k \<times> 'a list) list \<Rightarrow> ('k \<times> 'a list) list" where
  \<comment> \<open>\<open>d[k].append(x)\<close> for a key that is present\<close>
  "dict_append k x d = map (\<lambda>(k', v). if k' = k then (k', v @ [x]) else (k', v)) d"

definition candidates_init :: "string list \<Rightarrow> (string \<times> string list) list" where
  \<comment> \<open>\<open>{pid: [] for pid in base["Patron ID"].tolist()}\<close>\<close>
  "candidates_init pids = foldl (\<lambda>d pid. dict_set pid [] d) [] pids"

fun add_primary_emails ::
  "constituent list \<Rightarrow> (string \<times> string list) list \<Rightarrow> (string \<times> string list) list" where
  "add_primary_emails [] candidates = candidates"
| "add_primary_emails (r # rs) candidates =
     (let pid = c_patron_id r;
          pe = standardize_email (Some (clean_str (c_primary_email r)))
      in if pe \<noteq> [] \<and> is_valid_email (Some pe)
         then add_primary_emails rs (dict_append pid pe candidates)
         else add_primary_emails rs candidates)"

fun add_table_emails ::
  "email_row list \<Rightarrow> (string \<times> string list) list \<Rightarrow> (string \<times> string list) list" where
  "add_table_emails [] candidates = candidates"
| "add_table_emails (r # rs) candidates =
     (let pid = e_patron_id r;
          email = standardize_email (e_email r)
      in if email = [] \<or> \<not> is_valid_email (Some email)
         then add_table_emails rs candidates
         else (let candidates' =
                     (if pid \<notin> fst ` set candidates then dict_set pid [] candidates
                      else candidates)
               in add_table_emails rs (dict_append pid email candidates')))"

definition email_pair :: "string list \<Rightarrow> string \<times> string" where
  \<comment> \<open>the body of the last loop: de-duplicate, then pick Email 1 and Email 2\<close>
  "email_pair arr =
     (let uniq = drop_duplicates (\<lambda>x. x) arr;
          email1 = (if length uniq \<ge> 1 then uniq ! 0 else []);
          email2 = (if email1 \<noteq> [] \<and> length uniq \<ge> 2
                    then (let e2 = uniq ! 1 in if e2 = email1 then [] else e2)
                    else [])
      in (email1, email2))"

definition build_email_columns ::
  "constituent list \<Rightarrow> email_row list \<Rightarrow> (string \<times> string \<times> string) list" where
  \<comment> \<open>the rows \<open>(Patron ID, CB Email 1, CB Email 2)\<close> of the frame returned\<close>
  "build_email_columns constituents emails =
     (let candidates0 = candidates_init (map c_patron_id constituents);
          candidates1 = add_primary_emails constituents candidates0;
          candidates2 = add_table_emails emails candidates1
      in map (\<lambda>(pid, arr). (pid, email_pair arr)) candidates2)"

subsection \<open>The candidate list as the specification words it\<close>

definition valid_candidate :: "string \<Rightarrow> bool" where
  "valid_candidate e = (e \<noteq> [] \<and> is_valid_email (Some e))"

definition spec_primary_candidates :: "constituent list \<Rightarrow> string \<Rightarrow> string list" where
  \<comment> \<open>the primary email of the identity's row, if present and valid\<close>
  "spec_primary_candidates constituents pid =
     (case find (\<lambda>r. c_patron_id r = pid) constituents of
        None \<Rightarrow> []
      | Some r \<Rightarrow> filter valid_candidate
                    [standardize_email (Some (clean_str (c_primary_email r)))])"

definition spec_table_candidates :: "email_row list \<Rightarrow> string \<Rightarrow> string list" where
  \<comment> \<open>the identity's entries of the email table in file order, each validated\<close>
  "spec_table_candidates emails pid =
     filter valid_candidate
       (map (\<lambda>r. standardize_email (e_email r)) (filter (\<lambda>r. e_patron_id r = pid) emails))"

fun first_occurrences :: "'a list \<Rightarrow> 'a list" where
  \<comment> \<open>de-duplication preserving first occurrence: an element stays where it first
      occurs, and its later occurrences are removed\<close>
  "first_occurrences [] = []"
| "first_occurrences (x # xs) = x # first_occurrences (filter (\<lambda>y. y \<noteq> x) xs)"

definition spec_candidates :: "constituent list \<Rightarrow> email_row list \<Rightarrow> string \<Rightarrow> string list" where
  \<comment> \<open>primary first, then the table entries, de-duplicated keeping first occurrences\<close>
  "spec_candidates constituents emails pid =
     first_occurrences
       (spec_primary_candidates constituents pid @ spec_table_candidates emails pid)"

definition spec_email_1 :: "string list \<Rightarrow> string" where
  "spec_email_1 cand = (case cand of [] \<Rightarrow> [] | x # _ \<Rightarrow> x)"

definition spec_email_2 :: "string list \<Rightarrow> string" where
  "spec_email_2 cand = (case cand of x # y # _ \<Rightarrow> (if y \<noteq> x then y else []) | _ \<Rightarrow> [])"

definition primary_events :: "constituent list \<Rightarrow> string \<Rightarrow> string list" where
  \<comment> \<open>what the first loop appends under one key, for the proofs\<close>
  "primary_events rs k =
     filter valid_candidate
       (map (\<lambda>r. standardize_email (Some (clean_str (c_primary_email r))))
          (filter (\<lambda>r. c_patron_id r = k) rs))"

section \<open>Donation aggregator\<close>

definition parse_currency_to_float :: "('f, 'v) pylib \<Rightarrow> cell \<Rightarrow> 'f option" where
  "parse_currency_to_float L raw =
     (let s = clean_str raw in
      if s = [] then None
      else (let s2 = strip (filter (\<lambda>c. c \<noteq> CHR '','') (filter (\<lambda>c. c \<noteq> CHR ''$'') s))
            in float_of_string L s2))"

definition format_currency :: "('f, 'v) pylib \<Rightarrow> 'f option \<Rightarrow> string" where
  "format_currency L amount =
     (case amount of
        None \<Rightarrow> []
      | Some a \<Rightarrow> if float_isnan L a then [] else ''$'' @ format_comma_2f L a)"

definition status_is_paid :: "donation \<Rightarrow> bool" where
  \<comment> \<open>\<open>df["Status"].fillna("").str.lower() == "paid"\<close>\<close>
  "status_is_paid r = (lower (case d_status r of None \<Rightarrow> [] | Some s \<Rightarrow> s) = ''paid'')"

definition dropna ::
  "('f, 'v) pylib \<Rightarrow> (donation \<times> 'f option \<times> int option) list \<Rightarrow> (donation \<times> 'f \<times> int) list" where
  \<comment> \<open>\<open>dropna(subset=["amount_num", "date_dt"])\<close>: a row stays if its amount is a float
      that is not NaN and its date is not NaT\<close>
  "dropna L df =
     concat (map (\<lambda>(r, a, d).
        (case a of
           None \<Rightarrow> []
         | Some v \<Rightarrow> if float_isnan L v then []
                     else (case d of None \<Rightarrow> [] | Some t \<Rightarrow> [(r, v, t)]))) df)"

definition qualifying_rows ::
  "('f, 'v) pylib \<Rightarrow> donations_table \<Rightarrow> (donation \<times> 'f \<times> int) list" where
  \<comment> \<open>the frame \<open>df\<close> after the status filter and \<open>dropna\<close>, each row with its
      \<open>amount_num\<close> and \<open>date_dt\<close>\<close>
  "qualifying_rows L donations =
     (let rows = d_rows donations;
          date_dt = to_datetime L (map d_date rows);
          df = map (\<lambda>i. (rows ! i, parse_currency_to_float L (d_amount (rows ! i)), date_dt i))
                 [0..<length rows];
          df1 = (if has_status donations then filter (\<lambda>(r, a, d). status_is_paid r) df else df)
      in dropna L df1)"

definition donation_le ::
  "('f, 'v::linorder) pylib \<Rightarrow> string \<times> 'f \<times> int \<Rightarrow> string \<times> 'f \<times> int \<Rightarrow> bool" where
  \<comment> \<open>the order of \<open>sort_values(["Patron ID", "date_dt", "amount_num"],
      ascending=[True, False, False])\<close>\<close>
  "donation_le L a b =
     (case a of (p1, x1, t1) \<Rightarrow> case b of (p2, x2, t2) \<Rightarrow>
        p1 < p2 \<or>
        (p1 = p2 \<and> (t2 < t1 \<or> (t1 = t2 \<and> float_value L x2 \<le> float_value L x1))))"

definition build_donation_metrics ::
  "('f, 'v::linorder) pylib \<Rightarrow> donations_table \<Rightarrow> (string \<times> string \<times> string \<times> string) list" where
  \<comment> \<open>the rows \<open>(Patron ID, CB Lifetime Donation Amount, CB Most Recent Donation Date,
      CB Most Recent Donation Amount)\<close> of the frame returned\<close>
  "build_donation_metrics L donations =
     (let df = map (\<lambda>(r, x, t). (d_patron_id r, x, t)) (qualifying_rows L donations)
      in if df = [] then []
         else
          (let pids = sort (remdups (map fst df));
               df_sorted = sort_values (donation_le L) df
           in map (\<lambda>pid.
                 (let lifetime_sum = float_sum L (map (\<lambda>(p, x, t). x) (filter (\<lambda>(p, x, t). p = pid) df));
                      recent = find (\<lambda>(p, x, t). p = pid) df_sorted
                  in (pid,
                      format_currency L (Some lifetime_sum),
                      (case recent of None \<Rightarrow> [] | Some (p, x, t) \<Rightarrow> date_isoformat L t),
                      (case recent of None \<Rightarrow> [] | Some (p, x, t) \<Rightarrow> format_currency L (Some x)))))
               pids))"

subsection \<open>The lifetime totals as the specification words them\<close>

definition identity_amounts :: "('f, 'v) pylib \<Rightarrow> donations_table \<Rightarrow> string \<Rightarrow> 'f list" where
  \<comment> \<open>the amounts of the qualifying transactions of one identity, in file order\<close>
  "identity_amounts L donations pid =
     map (\<lambda>(r, v, t). v)
       (filter (\<lambda>(r, v, t). d_patron_id r = pid) (qualifying_rows L donations))"

definition lifetime_totals_parsed :: "('f, 'v::linorder) pylib \<Rightarrow> donations_table \<Rightarrow> 'f list" where
  \<comment> \<open>the per-identity lifetime totals of the output, parsed back to numbers\<close>
  "lifetime_totals_parsed L donations =
     concat (map (\<lambda>(pid, lifetime, recent_date, recent_amount).
                    (case parse_currency_to_float L (Some lifetime) of None \<Rightarrow> [] | Some v \<Rightarrow> [v]))
               (build_donation_metrics L donations))"

definition spec_paid_amounts :: "('f, 'v::linorder) pylib \<Rightarrow> donations_table \<Rightarrow> 'f list" where
  \<comment> \<open>the amounts of all "paid" rows of the raw input, for the identities that have at
      least one qualifying transaction\<close>
  "spec_paid_amounts L donations =
     concat (map (\<lambda>r.
        if status_is_paid r \<and> d_patron_id r \<in> fst ` set (build_donation_metrics L donations)
        then (case parse_currency_to_float L (d_amount r) of None \<Rightarrow> [] | Some v \<Rightarrow> [v])
        else []) (d_rows donations))"

section \<open>Record assembler and tag counter\<close>

definition normalize_salutation :: "cell \<Rightarrow> string" where
  "normalize_salutation raw =
     (let s = clean_str raw in
      if s = [] then []
      else (let s' = lower (strip (filter (\<lambda>c. c \<noteq> CHR ''.'') s))
            in case map_of [(''mr'', ''Mr.''), (''mrs'', ''Mrs.''), (''ms'', ''Ms.''), (''dr'', ''Dr.'')] s' of
                 None \<Rightarrow> [] | Some t \<Rightarrow> t))"

definition parse_date_any :: "('f, 'v) pylib \<Rightarrow> cell \<Rightarrow> string" where
  "parse_date_any L raw =
     (let s = clean_str raw in
      if s = [] then []
      else (case to_datetime_scalar L s of None \<Rightarrow> [] | Some dt \<Rightarrow> date_isoformat L dt))"

definition classify_constituent_type :: "constituent \<Rightarrow> string" where
  "classify_constituent_type row =
     (let cmp = clean_str (c_company row) in if cmp \<noteq> [] then ''Company'' else ''Person'')"

definition fill_missing_person_names :: "string \<Rightarrow> cell \<Rightarrow> cell \<Rightarrow> string \<times> string" where
  "fill_missing_person_names patron_id first last_n =
     (let f = clean_str first; l = clean_str last_n in
      if f \<noteq> [] \<and> l \<noteq> [] then (f, l)
      else (''Unknown'', ''Unknown-'' @ patron_id))"

fun join :: "string \<Rightarrow> string list \<Rightarrow> string" where
  \<comment> \<open>\<open>sep.join(lst)\<close>\<close>
  "join sep [] = []"
| "join sep [x] = x"
| "join sep (x # y # ys) = x @ sep @ join sep (y # ys)"

record output_row =
  cb_constituent_id :: string
  cb_constituent_type :: string
  cb_first_name :: string
  cb_last_name :: string
  cb_company_name :: string
  cb_created_at :: string
  cb_email_1 :: cell
  cb_email_2 :: cell
  cb_title :: string
  cb_tags :: string
  cb_background_information :: string
  cb_lifetime_donation_amount :: string
  cb_most_recent_donation_date :: string
  cb_most_recent_donation_amount :: string

record tags_table =
  tt_columns :: "string list"
  tt_rows :: "(string \<times> nat) list"

datatype error = KeyError string

definition merged_cell :: "constituent option \<Rightarrow> (constituent \<Rightarrow> cell) \<Rightarrow> cell" where
  \<comment> \<open>a constituent column after the left merge: NaN where no row matches\<close>
  "merged_cell row col = (case row of None \<Rightarrow> None | Some r \<Rightarrow> col r)"

definition assemble_row ::
  "('f, 'v) pylib \<Rightarrow> (string \<rightharpoonup> string) \<Rightarrow> constituent list \<Rightarrow>
   (string \<times> string \<times> string) list \<Rightarrow> (string \<times> string \<times> string \<times> string) list \<Rightarrow>
   string \<Rightarrow> output_row" where
  \<comment> \<open>the row of \<open>out\<close> for one identity of the universe\<close>
  "assemble_row L mapping c email_cols donation_metrics pid =
     (let row = find (\<lambda>r. c_patron_id r = pid) c;
          ctype = (case row of None \<Rightarrow> ''Person'' | Some r \<Rightarrow> classify_constituent_type r);
          mapped_tags = apply_tag_mapping
             (split_tags (Some (case merged_cell row c_tags of None \<Rightarrow> [] | Some s \<Rightarrow> s))) mapping;
          job = clean_str (merged_cell row c_title);
          is_company = (ctype = ''Company'');
          names = (if is_company then ([], [])
                   else fill_missing_person_names pid (merged_cell row c_first_name)
                          (merged_cell row c_last_name));
          emails = (case map_of email_cols pid of
                      None \<Rightarrow> (None, None)
                    | Some (e1, e2) \<Rightarrow> (Some e1, Some e2));
          m_no_e1 = ((case fst emails of None \<Rightarrow> [] | Some e \<Rightarrow> e) = []);
          don = (case map_of donation_metrics pid of
                   None \<Rightarrow> ([], [], [])
                 | Some d \<Rightarrow> d)
      in \<lparr>cb_constituent_id = pid,
          cb_constituent_type = ctype,
          cb_first_name = fst names,
          cb_last_name = snd names,
          cb_company_name = (if is_company then clean_str (merged_cell row c_company) else []),
          cb_created_at = parse_date_any L (merged_cell row c_date_entered),
          cb_email_1 = fst emails,
          cb_email_2 = (if m_no_e1 then Some [] else snd emails),
          cb_title = normalize_salutation (merged_cell row c_salutation),
          cb_tags = join '', '' mapped_tags,
          cb_background_information = (if job \<noteq> [] then ''Job Title: '' @ job else []),
          cb_lifetime_donation_amount = fst don,
          cb_most_recent_donation_date = fst (snd don),
          cb_most_recent_donation_amount = snd (snd don)\<rparr>)"

definition tag_count_le :: "string \<times> nat \<Rightarrow> string \<times> nat \<Rightarrow> bool" where
  \<comment> \<open>the order of \<open>sort_values(["CB Tag Count", "CB Tag Name"], ascending=[False, True])\<close>\<close>
  "tag_count_le a b =
     (case a of (t1, n1) \<Rightarrow> case b of (t2, n2) \<Rightarrow> n2 < n1 \<or> (n1 = n2 \<and> t1 \<le> t2))"

definition tag_counts :: "(string \<times> string list) list \<Rightarrow> tags_table" where
  \<comment> \<open>the tags output, from the pairs \<open>zip(c["Patron ID"], c["_mapped_tags"])\<close>\<close>
  "tag_counts tagged =
     (let tag_rows = concat (map (\<lambda>(pid, tgs). map (\<lambda>t. (pid, t)) tgs) tagged)
      in if tag_rows = []
         then \<lparr>tt_columns = [''CB Tag Name'', ''CB Tag Count''], tt_rows = []\<rparr>
         else
          (let tags_unique = drop_duplicates (\<lambda>x. x) tag_rows;
               names = sort (remdups (map snd tags_unique));
               counted = map (\<lambda>t. (t, length (remdups (map fst
                                (filter (\<lambda>(p, t'). t' = t) tags_unique))))) names
           in \<lparr>tt_columns = [''CB Tag Name'', ''CB Tag Count''],
               tt_rows = sort_values tag_count_le counted\<rparr>))"

definition mapped_tags_of :: "(string \<rightharpoonup> string) \<Rightarrow> constituent \<Rightarrow> string list" where
  \<comment> \<open>the column \<open>_mapped_tags\<close> of the canonical table\<close>
  "mapped_tags_of mapping r = apply_tag_mapping (split_tags (c_tags r)) mapping"

definition transform ::
  "('f, 'v::linorder) pylib \<Rightarrow> constituent list \<Rightarrow> email_row list \<Rightarrow> donations_table \<Rightarrow>
   (string \<rightharpoonup> string) \<Rightarrow> error + (output_row list \<times> tags_table)" where
  \<comment> \<open>\<open>transform\<close> with the tag mapping resolved.  An empty \<open>email_cols\<close> is a frame
      without columns, and reading its \<open>Patron ID\<close> raises.  \<open>all_ids\<close> is the union of
      the three indexes, sorted; each merge is a left join on a key that is unique on the
      right.\<close>
  "transform L constituents emails donations mapping =
     (let c = dedupe_constituents_latest L constituents;
          email_cols = build_email_columns c emails;
          donation_metrics = build_donation_metrics L donations
      in if email_cols = [] then Inl (KeyError ''Patron ID'')
         else
          (let all_ids = sort (remdups (map c_patron_id c @ map fst email_cols
                                        @ map fst donation_metrics));
               out = map (assemble_row L mapping c email_cols donation_metrics) all_ids;
               tags_out = tag_counts (map (\<lambda>r. (c_patron_id r, mapped_tags_of mapping r)) c)
           in Inr (out, tags_out)))"

section \<open>Example inputs\<close>

text \<open>
  The library functions at the texts that the examples use: four calendar dates with
  their timestamps, and the floats 20.0, 50.0 and 70.0 written as integers.
\<close>

definition example_dates :: "(string \<times> int) list" where
  "example_dates =
     [(''2024-01-01'', 1704067200000000000), (''2024-03-01'', 1709251200000000000),
      (''2024-05-01'', 1714521600000000000), (''2024-06-01'', 1717200000000000000)]"

definition example_lib :: "(int, int) pylib" where
  "example_lib =
     \<lparr>to_datetime = (\<lambda>col i. if i < length col
                        then (case col ! i of None \<Rightarrow> None | Some s \<Rightarrow> map_of example_dates s)
                        else None),
      to_datetime_scalar = map_of example_dates,
      date_isoformat = (\<lambda>t. case map_of (map (\<lambda>(s, t). (t, s)) example_dates) t of
                          None \<Rightarrow> [] | Some s \<Rightarrow> s),
      float_of_string = map_of [(''20'', 20), (''50'', 50), (''20.00'', 20), (''50.00'', 50),
                                 (''70.00'', 70)],
      float_isnan = (\<lambda>x. False),
      float_value = (\<lambda>x. x),
      float_sum = sum_list,
      format_comma_2f = (\<lambda>x. case map_of [(20, ''20.00''), (50, ''50.00''), (70, ''70.00'')] x of
                          None \<Rightarrow> [] | Some s \<Rightarrow> s)\<rparr>"

definition example_constituent ::
  "string \<Rightarrow> cell \<Rightarrow> cell \<Rightarrow> cell \<Rightarrow> cell \<Rightarrow> cell \<Rightarrow> cell \<Rightarrow> constituent" where
  "example_constituent pid cmp first lastn entered email tgs =
     \<lparr>c_patron_id = pid, c_company = cmp, c_first_name = first, c_last_name = lastn,
      c_salutation = None, c_title = None, c_date_entered = entered,
      c_primary_email = email, c_tags = tgs\<rparr>"

definition jane_doe_january :: constituent where
  "jane_doe_january =
     example_constituent ''1'' None (Some ''Jane'') (Some ''Doe'') (Some ''2024-01-01'') None None"

definition jane_smith_january :: constituent where
  "jane_smith_january =
     example_constituent ''1'' None (Some ''Jane'') (Some ''Smith'') (Some ''2024-01-01'') None None"

definition jane_smith_june :: constituent where
  "jane_smith_june =
     example_constituent ''1'' None (Some ''Jane'') (Some ''Smith'') (Some ''2024-06-01'') None None"

definition jane_with_email :: constituent where
  "jane_with_email =
     example_constituent ''1'' None (Some ''Jane'') (Some ''Doe'') (Some ''2024-01-01'')
       (Some ''JANE@Example.com'') (Some ''Board, board, Donor'')"

definition example_emails :: "email_row list" where
  "example_emails =
     [\<lparr>e_patron_id = ''1'', e_email = Some ''jane@example.com''\<rparr>,
      \<lparr>e_patron_id = ''3'', e_email = Some ''<Bob@Example.org>''\<rparr>]"

definition example_donations :: donations_table where
  "example_donations =
     \<lparr>has_status = True,
      d_rows = [\<lparr>d_patron_id = ''2'', d_amount = Some ''$50'', d_date = Some ''2024-03-01'',
                 d_status = Some ''paid''\<rparr>,
                \<lparr>d_patron_id = ''2'', d_amount = Some ''$20'', d_date = Some ''2024-05-01'',
                 d_status = Some ''refunded''\<rparr>]\<rparr>"

definition example_constituents :: "constituent list" where
  "example_constituents =
     [jane_with_email,
      example_constituent ''5'' (Some ''Acme Ltd'') None None (Some ''2024-03-01'') None
        (Some ''donor, Volunteer''),
      example_constituent ''6'' None (Some '' '') (Some ''Roe'') None (Some ''not an email'')
        None]"

definition example_mapping :: "string \<rightharpoonup> string" where
  "example_mapping = map_of [(''donor'', ''Major Donor'')]"

definition example_transform :: "error + (output_row list \<times> tags_table)" where
  "example_transform =
     transform example_lib example_constituents example_emails example_donations example_mapping"

definition example_tagged :: "(string \<times> string list) list" where
  \<comment> \<open>the identities of the canonical example table with their final tag lists\<close>
  "example_tagged =
     map (\<lambda>r. (c_patron_id r, mapped_tags_of example_mapping r))
       (dedupe_constituents_latest example_lib example_constituents)"

definition example_donations_bad_date :: donations_table where
  \<comment> \<open>two paid donations of one identity; the date of the second does not parse\<close>
  "example_donations_bad_date =
     \<lparr>has_status = True,
      d_rows = [\<lparr>d_patron_id = ''2'', d_amount = Some ''$50'', d_date = Some ''2024-03-01'',
                 d_status = Some ''paid''\<rparr>,
                \<lparr>d_patron_id = ''2'', d_amount = Some ''$20'', d_date = Some ''unknown'',
                 d_status = Some ''Paid''\<rparr>]\<rparr>"

definition example_donations_tie :: donations_table where
  \<comment> \<open>two paid donations of one identity on the same day\<close>
  "example_donations_tie =
     \<lparr>has_status = True,
      d_rows = [\<lparr>d_patron_id = ''2'', d_amount = Some ''$20'', d_date = Some ''2024-03-01'',
                 d_status = Some ''paid''\<rparr>,
                \<lparr>d_patron_id = ''2'', d_amount = Some ''$50'', d_date = Some ''2024-03-01'',
                 d_status = Some ''PAID''\<rparr>]\<rparr>"

definition example_emails_two :: "email_row list" where
  \<comment> \<open>identity 1 has its primary email again and a second address; identity 3 is known
      from this table only\<close>
  "example_emails_two =
     [\<lparr>e_patron_id = ''1'', e_email = Some ''jane@example.com''\<rparr>,
      \<lparr>e_patron_id = ''3'', e_email = Some ''<Bob@Example.org>''\<rparr>,
      \<lparr>e_patron_id = ''1'', e_email = Some ''J.Doe@Example.org''\<rparr>,
      \<lparr>e_patron_id = ''1'', e_email = Some ''not an address''\<rparr>]"

section \<open>Properties of email validation\<close>

lemma split_once_decomp: "c \<notin> set l \<Longrightarrow> split_once c (l @ c # d) = (l, d)"
  by (induction l) (auto simp: split_once_def)

lemma count_one_decomp:
  "count_list e c = 1 \<Longrightarrow> \<exists>l d. e = l @ c # d \<and> c \<notin> set l \<and> c \<notin> set d"
proof (induction e)
  case Nil
  then show ?case by simp
next
  case (Cons x xs)
  show ?case
  proof (cases "x = c")
    case True
    with Cons.prems have "count_list xs c = 0" by simp
    then have "c \<notin> set xs" by (simp add: count_list_0_iff)
    with True have "x # xs = [] @ c # xs \<and> c \<notin> set [] \<and> c \<notin> set xs" by simp
    then show ?thesis by blast
  next
    case False
    with Cons.prems have "count_list xs c = 1" by simp
    from Cons.IH [OF this] obtain l d where ld: "xs = l @ c # d" "c \<notin> set l" "c \<notin> set d"
      by blast
    with False have "x # xs = (x # l) @ c # d \<and> c \<notin> set (x # l) \<and> c \<notin> set d" by auto
    then show ?thesis by blast
  qed
qed

lemma decomp_count_one:
  "c \<notin> set l \<Longrightarrow> c \<notin> set d \<Longrightarrow> count_list (l @ c # d) c = 1"
  by (simp add: count_list_append count_list_0_iff)

text \<open>
  C4 (as the code has it).  \<open>is_valid_email\<close> accepts exactly the inputs whose standardised
  form (trimmed, lower-cased, wrappers removed) is \<open>local @ domain\<close> with a single \<open>@\<close>, a
  non-empty local part, a non-empty domain holding a dot, and no blank (U+0020) anywhere.
  The test is for the blank only, as the docstring says ("no spaces"), not for every
  whitespace character.
\<close>

theorem is_valid_email_iff:
  "is_valid_email raw =
     (\<exists>local_part domain.
        standardize_email raw = local_part @ CHR ''@'' # domain \<and>
        CHR ''@'' \<notin> set local_part \<and> CHR ''@'' \<notin> set domain \<and>
        local_part \<noteq> [] \<and> domain \<noteq> [] \<and>
        CHR ''.'' \<in> set domain \<and>
        CHR '' '' \<notin> set (standardize_email raw))"
proof
  assume v: "is_valid_email raw"
  define e where "e = standardize_email raw"
  from v have sp: "CHR '' '' \<notin> set e" and cnt: "count_list e (CHR ''@'') = 1"
    by (auto simp: is_valid_email_def e_def Let_def split: if_splits)
  from count_one_decomp [OF cnt] obtain l d
    where ld: "e = l @ CHR ''@'' # d" "CHR ''@'' \<notin> set l" "CHR ''@'' \<notin> set d" by blast
  have so: "split_once (CHR ''@'') e = (l, d)"
    using ld by (simp add: split_once_decomp)
  from v so have "l \<noteq> [] \<and> d \<noteq> [] \<and> CHR ''.'' \<in> set d"
    by (auto simp: is_valid_email_def e_def [symmetric] Let_def split: if_splits)
  with ld sp show "\<exists>local_part domain.
        standardize_email raw = local_part @ CHR ''@'' # domain \<and>
        CHR ''@'' \<notin> set local_part \<and> CHR ''@'' \<notin> set domain \<and>
        local_part \<noteq> [] \<and> domain \<noteq> [] \<and>
        CHR ''.'' \<in> set domain \<and>
        CHR '' '' \<notin> set (standardize_email raw)"
    unfolding e_def [symmetric] by blast
next
  assume "\<exists>local_part domain.
        standardize_email raw = local_part @ CHR ''@'' # domain \<and>
        CHR ''@'' \<notin> set local_part \<and> CHR ''@'' \<notin> set domain \<and>
        local_part \<noteq> [] \<and> domain \<noteq> [] \<and>
        CHR ''.'' \<in> set domain \<and>
        CHR '' '' \<notin> set (standardize_email raw)"
  then obtain l d where ld: "standardize_email raw = l @ CHR ''@'' # d"
      "CHR ''@'' \<notin> set l" "CHR ''@'' \<notin> set d" "l \<noteq> []" "d \<noteq> []" "CHR ''.'' \<in> set d"
      "CHR '' '' \<notin> set (standardize_email raw)"
    by blast
  have cnt: "count_list (standardize_email raw) (CHR ''@'') = 1"
    unfolding ld(1) by (rule decomp_count_one) (use ld in auto)
  have so: "split_once (CHR ''@'') (standardize_email raw) = (l, d)"
    unfolding ld(1) by (rule split_once_decomp) (use ld in auto)
  have ne: "standardize_email raw \<noteq> []" using ld(1) by simp
  show "is_valid_email raw"
    using cnt so ne ld(4-7) by (simp add: is_valid_email_def Let_def)
qed

theorem is_valid_email_iff_witness:
  "is_valid_email (Some '' <Jane@Example.COM> '') \<and>
   standardize_email (Some '' <Jane@Example.COM> '') = ''jane'' @ CHR ''@'' # ''example.com''"
proof -
  have s: "standardize_email (Some '' <Jane@Example.COM> '') = ''jane'' @ CHR ''@'' # ''example.com''"
    by code_simp
  have "\<exists>local_part domain.
        standardize_email (Some '' <Jane@Example.COM> '') = local_part @ CHR ''@'' # domain \<and>
        CHR ''@'' \<notin> set local_part \<and> CHR ''@'' \<notin> set domain \<and>
        local_part \<noteq> [] \<and> domain \<noteq> [] \<and>
        CHR ''.'' \<in> set domain \<and>
        CHR '' '' \<notin> set (standardize_email (Some '' <Jane@Example.COM> ''))"
    apply (rule exI [of _ "''jane''"])
    apply (rule exI [of _ "''example.com''"])
    unfolding s by simp
  then have "is_valid_email (Some '' <Jane@Example.COM> '')"
    by (rule iffD2 [OF is_valid_email_iff])
  with s show ?thesis by simp
qed

text \<open>
  C4 as stated fails: \<open>a<TAB>b@c.d\<close> holds a whitespace character (a tab), and
  \<open>is_valid_email\<close> returns true for it.
\<close>

theorem is_valid_email_whitespace_counterexample:
  "is_valid_email (Some [CHR ''a'', CHR 0x09, CHR ''b'', CHR ''@'', CHR ''c'', CHR ''.'', CHR ''d''])
   \<and> (\<exists>c \<in> set (standardize_email
          (Some [CHR ''a'', CHR 0x09, CHR ''b'', CHR ''@'', CHR ''c'', CHR ''.'', CHR ''d''])).
        is_space c)"
  by code_simp

section \<open>Properties of the tags validator\<close>

text \<open>
  C10.  \<open>validate_tags\<close> returns no issue for an empty tags table, whatever its columns:
  the required-column and numeric-count checks run only on a non-empty table.
\<close>

theorem validate_tags_empty:
  "frame_empty df \<Longrightarrow> validate_tags is_numeric df = []"
  by (simp add: validate_tags_def)

theorem validate_tags_empty_witness:
  "frame_empty \<lparr>nrows = 0, cols = ([] :: (string \<times> string list) list)\<rparr> \<and>
   \<not> has_column \<lparr>nrows = 0, cols = ([] :: (string \<times> string list) list)\<rparr> ''CB Tag Name'' \<and>
   \<not> has_column \<lparr>nrows = 0, cols = ([] :: (string \<times> string list) list)\<rparr> ''CB Tag Count'' \<and>
   validate_tags (\<lambda>v. False) \<lparr>nrows = 0, cols = ([] :: (string \<times> string list) list)\<rparr> = []"
proof -
  have e: "frame_empty \<lparr>nrows = 0, cols = ([] :: (string \<times> string list) list)\<rparr>"
    by (simp add: frame_empty_def)
  show ?thesis
    using e validate_tags_empty [OF e, of "\<lambda>v. False"] by (simp add: has_column_def)
qed

section \<open>Properties of tag normalisation\<close>

lemma strip_chars_ends:
  assumes "strip_chars P s \<noteq> []"
  shows "\<not> P (hd (strip_chars P s)) \<and> \<not> P (last (strip_chars P s))"
proof -
  define t where "t = dropWhile P s"
  define u where "u = dropWhile P (rev t)"
  have r: "strip_chars P s = rev u" by (simp add: strip_chars_def t_def u_def)
  with assms have une: "u \<noteq> []" by simp
  then have hu: "\<not> P (hd u)" unfolding u_def by (rule hd_dropWhile)
  have tne: "t \<noteq> []" using une by (auto simp: u_def)
  then have ht: "\<not> P (hd t)" unfolding t_def by (rule hd_dropWhile)
  have "rev t = takeWhile P (rev t) @ u" by (simp add: u_def)
  then have "last (rev t) = last u" using une by (metis last_appendR)
  then have "last u = hd t" using tne by (simp add: last_rev)
  with ht hu une show ?thesis by (simp add: r hd_rev last_rev)
qed

lemma strip_chars_fix:
  assumes "s \<noteq> []" "\<not> P (hd s)" "\<not> P (last s)"
  shows "strip_chars P s = s"
proof -
  have a: "dropWhile P s = s" using assms by (cases s) auto
  have "dropWhile P (rev s) = rev s" using assms by (cases "rev s") (auto simp: hd_rev)
  with a show ?thesis by (simp add: strip_chars_def)
qed

lemma strip_chars_idem: "strip_chars P (strip_chars P s) = strip_chars P s"
proof (cases "strip_chars P s = []")
  case True
  have "strip_chars P [] = []" by (simp add: strip_chars_def)
  with True show ?thesis by simp
next
  case False
  from strip_chars_ends [OF False] False show ?thesis by (simp add: strip_chars_fix)
qed

lemma strip_idem: "strip (strip s) = strip s"
  by (simp add: strip_def strip_chars_idem)

lemma set_dedupe_ci: "set (dedupe_ci xs) \<subseteq> set xs"
  by (induction xs rule: dedupe_ci.induct) auto

lemma dedupe_ci_distinct: "ci_distinct (dedupe_ci xs)"
  unfolding ci_distinct_def
proof (induction xs rule: dedupe_ci.induct)
  case 1
  show ?case by simp
next
  case (2 x xs)
  have "lower x \<notin> lower ` set (dedupe_ci (filter (\<lambda>y. lower y \<noteq> lower x) xs))"
    using set_dedupe_ci [of "filter (\<lambda>y. lower y \<noteq> lower x) xs"] by auto
  with 2 show ?case by simp
qed

lemma dedupe_ci_step:
  assumes "p \<noteq> []" "lower p \<notin> seen"
  shows "dedupe_ci (filter (\<lambda>q. q \<noteq> [] \<and> lower q \<notin> seen) (p # xs)) =
         p # dedupe_ci (filter (\<lambda>q. q \<noteq> [] \<and> lower q \<notin> insert (lower p) seen) xs)"
proof -
  have "filter (\<lambda>y. lower y \<noteq> lower p) (filter (\<lambda>q. q \<noteq> [] \<and> lower q \<notin> seen) xs) =
        filter (\<lambda>q. q \<noteq> [] \<and> lower q \<notin> insert (lower p) seen) xs"
    by (induction xs) auto
  with assms show ?thesis by simp
qed

lemma split_tags_loop_eq:
  "split_tags_loop parts seen out =
     out @ dedupe_ci (filter (\<lambda>p. p \<noteq> [] \<and> lower p \<notin> seen) parts)"
proof (induction parts arbitrary: seen out)
  case Nil
  show ?case by simp
next
  case (Cons p parts)
  show ?case
  proof (cases "p = [] \<or> lower p \<in> seen")
    case True
    then show ?thesis by (auto simp: Cons.IH Let_def)
  next
    case False
    then have ds: "dedupe_ci (filter (\<lambda>q. q \<noteq> [] \<and> lower q \<notin> seen) (p # parts)) =
         p # dedupe_ci (filter (\<lambda>q. q \<noteq> [] \<and> lower q \<notin> insert (lower p) seen) parts)"
      by (intro dedupe_ci_step) auto
    from False have "split_tags_loop (p # parts) seen out =
        split_tags_loop parts (insert (lower p) seen) (out @ [p])"
      by (simp add: Let_def)
    also have "\<dots> = (out @ [p]) @
        dedupe_ci (filter (\<lambda>q. q \<noteq> [] \<and> lower q \<notin> insert (lower p) seen) parts)"
      by (rule Cons.IH)
    finally show ?thesis by (simp only: ds) simp
  qed
qed

lemma apply_tag_mapping_loop_eq:
  "apply_tag_mapping_loop m tags seen out =
     out @ dedupe_ci (filter (\<lambda>p. p \<noteq> [] \<and> lower p \<notin> seen)
             (map (\<lambda>t. strip (case m (lower (strip t)) of None \<Rightarrow> t | Some v \<Rightarrow> v)) tags))"
proof (induction tags arbitrary: seen out)
  case Nil
  show ?case by simp
next
  case (Cons t tags)
  define f where "f = (\<lambda>t. strip (case m (lower (strip t)) of None \<Rightarrow> t | Some v \<Rightarrow> v))"
  have IH: "apply_tag_mapping_loop m tags seen' out' =
     out' @ dedupe_ci (filter (\<lambda>p. p \<noteq> [] \<and> lower p \<notin> seen') (map f tags))" for seen' out'
    unfolding f_def by (rule Cons.IH)
  have mc: "clean_str (Some (case m (lower (strip t)) of None \<Rightarrow> t | Some v \<Rightarrow> v)) = f t"
    by (simp add: clean_str_def f_def)
  have goal: "apply_tag_mapping_loop m (t # tags) seen out =
     out @ dedupe_ci (filter (\<lambda>p. p \<noteq> [] \<and> lower p \<notin> seen) (f t # map f tags))"
  proof (cases "f t = [] \<or> lower (f t) \<in> seen")
    case True
    then show ?thesis by (auto simp: IH Let_def mc)
  next
    case False
    then have ds: "dedupe_ci (filter (\<lambda>q. q \<noteq> [] \<and> lower q \<notin> seen) (f t # map f tags)) =
         f t # dedupe_ci (filter (\<lambda>q. q \<noteq> [] \<and> lower q \<notin> insert (lower (f t)) seen) (map f tags))"
      by (intro dedupe_ci_step) auto
    from False have "apply_tag_mapping_loop m (t # tags) seen out =
        apply_tag_mapping_loop m tags (insert (lower (f t)) seen) (out @ [f t])"
      by (simp add: Let_def mc)
    also have "\<dots> = (out @ [f t]) @
        dedupe_ci (filter (\<lambda>q. q \<noteq> [] \<and> lower q \<notin> insert (lower (f t)) seen) (map f tags))"
      by (rule IH)
    finally show ?thesis by (simp only: ds) simp
  qed
  then show ?case by (simp add: f_def)
qed

lemma split_on_ne: "split_on c s \<noteq> []"
  by (induction s) (auto split: list.splits)

lemma split_on_notin: "c \<notin> set s \<Longrightarrow> split_on c s = [s]"
  by (induction s) auto

lemma split_on_single: "split_on c s = [p] \<Longrightarrow> p = s"
  by (induction s arbitrary: p) (auto split: if_splits list.splits simp: split_on_ne)

lemma rstrip_Cons:
  "rstrip P (x # xs) = (if \<forall>y\<in>set (x # xs). P y then [] else x # rstrip P xs)"
  by (auto simp: rstrip_def dropWhile_append)

lemma split_on_dropWhile:
  "\<not> P c \<Longrightarrow> split_on c (dropWhile P s) =
     (case split_on c s of [] \<Rightarrow> [] | p # ps \<Rightarrow> dropWhile P p # ps)"
  by (induction s) (auto split: list.splits simp: split_on_ne)

lemma split_on_rstrip:
  assumes "\<not> P c"
  shows "split_on c (rstrip P s) =
     butlast (split_on c s) @ [rstrip P (last (split_on c s))]"
proof (induction s)
  case Nil
  show ?case by (simp add: rstrip_def)
next
  case (Cons x xs)
  show ?case
  proof (cases "\<forall>y\<in>set (x # xs). P y")
    case True
    with assms have "c \<notin> set (x # xs)" by blast
    then have "split_on c (x # xs) = [x # xs]" by (rule split_on_notin)
    with True show ?thesis by (simp add: rstrip_Cons)
  next
    case False
    then have r: "rstrip P (x # xs) = x # rstrip P xs" by (simp add: rstrip_Cons)
    obtain p ps where S: "split_on c xs = p # ps"
      using split_on_ne [of c xs] by (cases "split_on c xs") auto
    show ?thesis
    proof (cases "x = c")
      case True
      then show ?thesis using Cons.IH S r by auto
    next
      case xc: False
      show ?thesis
      proof (cases ps)
        case Nil
        with S have "p = xs" by (simp add: split_on_single)
        with False have "rstrip P (x # p) = x # rstrip P p" by (simp add: rstrip_Cons)
        then show ?thesis using Cons.IH S Nil xc by (simp add: r)
      next
        case (Cons q qs)
        then show ?thesis using Cons.IH S xc by (simp add: r)
      qed
    qed
  qed
qed

lemma strip_chars_dropWhile: "strip_chars P (dropWhile P s) = strip_chars P s"
  by (simp add: strip_chars_def)

lemma rstrip_idem: "rstrip P (rstrip P s) = rstrip P s"
  by (simp add: rstrip_def)

lemma dropWhile_rstrip: "dropWhile P (rstrip P s) = rstrip P (dropWhile P s)"
proof (induction s)
  case Nil
  show ?case by (simp add: rstrip_def)
next
  case (Cons x xs)
  show ?case
  proof (cases "\<forall>y\<in>set (x # xs). P y")
    case True
    then have "dropWhile P (x # xs) = []" by simp
    moreover have "rstrip P [] = []" by (simp add: rstrip_def)
    moreover from True have "rstrip P (x # xs) = []" by (simp add: rstrip_Cons)
    ultimately show ?thesis by simp
  next
    case False
    then have r: "rstrip P (x # xs) = x # rstrip P xs" by (simp add: rstrip_Cons)
    show ?thesis
    proof (cases "P x")
      case True
      then show ?thesis using Cons.IH by (simp add: r)
    next
      case False
      then show ?thesis by (simp add: r)
    qed
  qed
qed

lemma strip_chars_rstrip: "strip_chars P (rstrip P s) = strip_chars P s"
proof -
  have "strip_chars P (rstrip P s) = rstrip P (dropWhile P (rstrip P s))"
    by (simp add: strip_chars_def rstrip_def)
  also have "\<dots> = rstrip P (rstrip P (dropWhile P s))" by (simp add: dropWhile_rstrip)
  also have "\<dots> = strip_chars P s" by (simp add: rstrip_idem) (simp add: strip_chars_def rstrip_def)
  finally show ?thesis .
qed

lemma strip_chars_as_rstrip: "strip_chars P s = rstrip P (dropWhile P s)"
  by (simp add: strip_chars_def rstrip_def)

lemma map_strip_split_on_strip:
  assumes "\<not> P c"
  shows "map (strip_chars P) (split_on c (strip_chars P s)) = map (strip_chars P) (split_on c s)"
proof -
  obtain p ps where S: "split_on c s = p # ps"
    using split_on_ne [of c s] by (cases "split_on c s") auto
  have d: "split_on c (dropWhile P s) = dropWhile P p # ps"
    using assms S by (simp add: split_on_dropWhile)
  have "split_on c (strip_chars P s) =
        butlast (dropWhile P p # ps) @ [rstrip P (last (dropWhile P p # ps))]"
    unfolding strip_chars_as_rstrip using assms d by (simp add: split_on_rstrip)
  then have "map (strip_chars P) (split_on c (strip_chars P s)) =
        map (strip_chars P) (butlast (dropWhile P p # ps)) @
          [strip_chars P (last (dropWhile P p # ps))]"
    by (simp add: strip_chars_rstrip)
  also have "\<dots> = map (strip_chars P) (butlast (dropWhile P p # ps) @ [last (dropWhile P p # ps)])"
    by simp
  also have "\<dots> = map (strip_chars P) (dropWhile P p # ps)"
    by (simp only: append_butlast_last_id [OF list.distinct(2)])
  also have "\<dots> = map (strip_chars P) (p # ps)"
    by (simp add: strip_chars_dropWhile)
  finally show ?thesis by (simp add: S)
qed

lemma not_space_comma: "\<not> is_space (CHR '','')"
  by code_simp

lemma split_tags_eq_spec: "split_tags (Some raw) = spec_local_tags raw"
proof -
  have m: "map strip (split_on (CHR '','') (strip raw)) = map strip (split_on (CHR '','') raw)"
    using map_strip_split_on_strip [of is_space "CHR '',''" raw] not_space_comma
    by (simp add: strip_def [abs_def])
  show ?thesis
  proof (cases "strip raw = []")
    case True
    with m have "map strip (split_on (CHR '','') raw) = [strip []]" by simp
    moreover have "strip [] = []" by (simp add: strip_def strip_chars_def)
    ultimately show ?thesis using True
      by (simp add: split_tags_def spec_local_tags_def clean_str_def)
  next
    case False
    then show ?thesis
      by (simp add: split_tags_def spec_local_tags_def clean_str_def split_tags_loop_eq m)
  qed
qed

lemma spec_local_tags_stripped: "t \<in> set (spec_local_tags raw) \<Longrightarrow> strip t = t"
proof -
  assume "t \<in> set (spec_local_tags raw)"
  then have "t \<in> set (map strip (split_on (CHR '','') raw))"
    using set_dedupe_ci [of "filter (\<lambda>p. p \<noteq> []) (map strip (split_on (CHR '','') raw))"]
    by (auto simp: spec_local_tags_def)
  then obtain p where "t = strip p" by auto
  then show "strip t = t" by (simp add: strip_idem)
qed

lemma apply_tag_mapping_stripped:
  assumes "\<forall>t \<in> set tags. strip t = t"
  shows "apply_tag_mapping tags m =
     dedupe_ci (filter (\<lambda>t. t \<noteq> []) (map (map_tag_trimmed m) tags))"
proof -
  have "map (\<lambda>t. strip (case m (lower (strip t)) of None \<Rightarrow> t | Some v \<Rightarrow> v)) tags =
        map (map_tag_trimmed m) tags"
    using assms by (auto simp: map_tag_trimmed_def split: option.splits)
  then show ?thesis
    by (simp only: apply_tag_mapping_def apply_tag_mapping_loop_eq) simp
qed

text \<open>
  C7 (as the code has it).  The local list is: split on comma, trim each piece, drop the
  empty pieces, de-duplicate case-insensitively keeping first-seen casing and order.  The
  final list is: map each local tag through the mapping by its lower-cased name (an unmapped
  tag is unchanged, a replacement name is trimmed), drop the tags whose trimmed replacement
  is empty, de-duplicate case-insensitively again.  Both lists are case-insensitively
  duplicate-free.
\<close>

theorem tag_normalisation:
  "split_tags (Some raw) = spec_local_tags raw \<and>
   apply_tag_mapping (split_tags (Some raw)) mapping =
     dedupe_ci (filter (\<lambda>t. t \<noteq> []) (map (map_tag_trimmed mapping) (spec_local_tags raw))) \<and>
   ci_distinct (split_tags (Some raw)) \<and>
   ci_distinct (apply_tag_mapping (split_tags (Some raw)) mapping)"
proof -
  have l: "split_tags (Some raw) = spec_local_tags raw" by (rule split_tags_eq_spec)
  have "\<forall>t \<in> set (spec_local_tags raw). strip t = t"
    by (simp add: spec_local_tags_stripped)
  then have f: "apply_tag_mapping (spec_local_tags raw) mapping =
     dedupe_ci (filter (\<lambda>t. t \<noteq> []) (map (map_tag_trimmed mapping) (spec_local_tags raw)))"
    by (rule apply_tag_mapping_stripped)
  have d1: "ci_distinct (spec_local_tags raw)"
    unfolding spec_local_tags_def by (rule dedupe_ci_distinct)
  have d2: "ci_distinct (apply_tag_mapping (spec_local_tags raw) mapping)"
    unfolding f by (rule dedupe_ci_distinct)
  from l f d1 d2 show ?thesis by simp
qed

theorem tag_normalisation_witness:
  "apply_tag_mapping (split_tags (Some ''Board, board, Donor''))
     (map_of [(''donor'', ''Major Donor'')]) = [''Board'', ''Major Donor''] \<and>
   ci_distinct [''Board'', ''Major Donor'']"
proof -
  have a: "dedupe_ci (filter (\<lambda>t. t \<noteq> [])
             (map (map_tag_trimmed (map_of [(''donor'', ''Major Donor'')]))
                (spec_local_tags ''Board, board, Donor''))) = [''Board'', ''Major Donor'']"
    by code_simp
  note t = tag_normalisation [of "''Board, board, Donor''" "map_of [(''donor'', ''Major Donor'')]"]
  from t have e: "apply_tag_mapping (split_tags (Some ''Board, board, Donor''))
     (map_of [(''donor'', ''Major Donor'')]) = [''Board'', ''Major Donor'']"
    unfolding a by blast
  from t have "ci_distinct (apply_tag_mapping (split_tags (Some ''Board, board, Donor''))
     (map_of [(''donor'', ''Major Donor'')]))"
    by blast
  then have "ci_distinct [''Board'', ''Major Donor'']" unfolding e .
  with e show ?thesis by blast
qed

text \<open>
  C7 as stated fails for a mapping whose replacement name has surrounding whitespace: the
  code trims the replacement, the stated procedure keeps it as it is.
\<close>

theorem tag_mapping_untrimmed_counterexample:
  "apply_tag_mapping (split_tags (Some ''a'')) (map_of [(''a'', '' X '')]) = [''X''] \<and>
   spec_final_tags (map_of [(''a'', '' X '')]) ''a'' = ['' X '']"
  by code_simp

section \<open>Properties of sorting and of dropping duplicates\<close>

lemma set_insort_by: "set (insort_by le x xs) = insert x (set xs)"
  by (induction xs) auto

lemma set_sort_values: "set (sort_values le xs) = set xs"
  by (induction xs) (auto simp: sort_values_def set_insort_by)

lemma sorted_insort_by:
  assumes total: "\<And>a b. le a b \<or> le b a"
    and trans: "\<And>a b c. le a b \<Longrightarrow> le b c \<Longrightarrow> le a c"
  shows "sorted_wrt le xs \<Longrightarrow> sorted_wrt le (insort_by le x xs)"
proof (induction xs)
  case Nil
  show ?case by simp
next
  case (Cons y ys)
  show ?case
  proof (cases "le x y")
    case True
    then have "\<forall>z \<in> set ys. le x z" using Cons.prems trans by auto
    with True Cons.prems show ?thesis by simp
  next
    case False
    then have "le y x" using total by blast
    with False Cons show ?thesis by (auto simp: set_insort_by)
  qed
qed

lemma sorted_sort_values:
  assumes "\<And>a b. le a b \<or> le b a"
    and "\<And>a b c. le a b \<Longrightarrow> le b c \<Longrightarrow> le a c"
  shows "sorted_wrt le (sort_values le xs)"
proof (induction xs)
  case Nil
  show ?case by (simp add: sort_values_def)
next
  case (Cons x xs)
  have "sort_values le (x # xs) = insort_by le x (sort_values le xs)"
    by (simp add: sort_values_def)
  with Cons show ?case using sorted_insort_by [of le, OF assms] by simp
qed

lemma find_sorted_min:
  "sorted_wrt le xs \<Longrightarrow> find P xs = Some x \<Longrightarrow>
     P x \<and> x \<in> set xs \<and> (\<forall>y \<in> set xs. P y \<longrightarrow> y = x \<or> le x y)"
  by (induction xs) (auto split: if_splits)

lemma drop_duplicates_loop_filter:
  "filter (\<lambda>x. key x = k) (drop_duplicates_loop key xs seen) =
     (if k \<in> seen then []
      else (case find (\<lambda>x. key x = k) xs of None \<Rightarrow> [] | Some x \<Rightarrow> [x]))"
proof (induction xs arbitrary: seen)
  case Nil
  show ?case by simp
next
  case (Cons x xs)
  show ?case by (auto simp: Cons.IH split: option.splits)
qed

lemma drop_duplicates_filter:
  "filter (\<lambda>x. key x = k) (drop_duplicates key xs) =
     (case find (\<lambda>x. key x = k) xs of None \<Rightarrow> [] | Some x \<Rightarrow> [x])"
  by (simp add: drop_duplicates_def drop_duplicates_loop_filter)

lemma set_drop_duplicates_loop: "set (drop_duplicates_loop key xs seen) \<subseteq> set xs"
  by (induction xs arbitrary: seen) auto

lemma keys_drop_duplicates_loop:
  "key ` set (drop_duplicates_loop key xs seen) = key ` set xs - seen"
  by (induction xs arbitrary: seen) auto

lemma distinct_drop_duplicates_loop:
  "distinct (map key (drop_duplicates_loop key xs seen))"
  by (induction xs arbitrary: seen) (auto simp: keys_drop_duplicates_loop)

lemma distinct_drop_duplicates: "distinct (map key (drop_duplicates key xs))"
  by (simp add: drop_duplicates_def distinct_drop_duplicates_loop)

lemma keys_drop_duplicates: "key ` set (drop_duplicates key xs) = key ` set xs"
  by (simp add: drop_duplicates_def keys_drop_duplicates_loop)

lemma set_drop_duplicates: "set (drop_duplicates key xs) \<subseteq> set xs"
  by (simp add: drop_duplicates_def set_drop_duplicates_loop)

section \<open>Properties of the identity canonicaliser\<close>

lemma nat_last_desc_lt_total: "nat_last_desc_lt a b \<or> a = b \<or> nat_last_desc_lt b a"
  by (auto simp: nat_last_desc_lt_def split: option.splits)

lemma nat_last_desc_lt_trans:
  "nat_last_desc_lt a b \<Longrightarrow> nat_last_desc_lt b c \<Longrightarrow> nat_last_desc_lt a c"
  by (auto simp: nat_last_desc_lt_def split: option.splits)

lemma dedupe_le_total: "dedupe_le a b \<or> dedupe_le b a"
proof -
  obtain r1 d1 i1 where a: "a = (r1, d1 :: int option, i1 :: nat)" by (cases a) auto
  obtain r2 d2 i2 where b: "b = (r2, d2 :: int option, i2 :: nat)" by (cases b) auto
  consider "c_patron_id r1 < c_patron_id r2" | "c_patron_id r2 < c_patron_id r1"
    | "c_patron_id r1 = c_patron_id r2" by (rule linorder_cases)
  then show ?thesis
  proof cases
    case 1
    then show ?thesis by (simp add: a b dedupe_le_def)
  next
    case 2
    then show ?thesis by (simp add: a b dedupe_le_def)
  next
    case 3
    have "i1 \<le> i2 \<or> i2 \<le> i1" by linarith
    with 3 nat_last_desc_lt_total [of d1 d2] show ?thesis
      by (auto simp: a b dedupe_le_def)
  qed
qed

lemma dedupe_le_trans:
  assumes "dedupe_le a b" "dedupe_le b c"
  shows "dedupe_le a c"
proof -
  obtain r1 d1 i1 where a: "a = (r1, d1 :: int option, i1 :: nat)" by (cases a) auto
  obtain r2 d2 i2 where b: "b = (r2, d2 :: int option, i2 :: nat)" by (cases b) auto
  obtain r3 d3 i3 where c: "c = (r3, d3 :: int option, i3 :: nat)" by (cases c) auto
  from assms(1) have ab: "c_patron_id r1 < c_patron_id r2 \<or>
      (c_patron_id r1 = c_patron_id r2 \<and> (nat_last_desc_lt d1 d2 \<or> (d1 = d2 \<and> i2 \<le> i1)))"
    by (simp add: a b dedupe_le_def)
  from assms(2) have bc: "c_patron_id r2 < c_patron_id r3 \<or>
      (c_patron_id r2 = c_patron_id r3 \<and> (nat_last_desc_lt d2 d3 \<or> (d2 = d3 \<and> i3 \<le> i2)))"
    by (simp add: b c dedupe_le_def)
  have "c_patron_id r1 < c_patron_id r3 \<or>
      (c_patron_id r1 = c_patron_id r3 \<and> (nat_last_desc_lt d1 d3 \<or> (d1 = d3 \<and> i3 \<le> i1)))"
    using ab bc nat_last_desc_lt_trans [of d1 d2 d3]
    by (metis le_trans less_trans)
  then show ?thesis by (simp add: a c dedupe_le_def)
qed

lemma dedupe_key_eq: "(\<lambda>(r :: constituent, d :: int option, i :: nat). c_patron_id r) = c_patron_id \<circ> fst"
  by auto

lemma dedupe_distinct: "distinct (map c_patron_id (dedupe_constituents_latest L c))"
  by (simp add: dedupe_constituents_latest_def Let_def dedupe_key_eq distinct_drop_duplicates)


lemma dedupe_winner:
  assumes "k \<in> c_patron_id ` set c"
  shows "\<exists>i<length c. c_patron_id (c ! i) = k \<and>
     filter (\<lambda>r. c_patron_id r = k) (dedupe_constituents_latest L c) = [c ! i] \<and>
     (\<forall>j<length c. c_patron_id (c ! j) = k \<longrightarrow> 
        dedupe_le (c ! i, to_datetime L (map c_date_entered c) i, i)
                  (c ! j, to_datetime L (map c_date_entered c) j, j))"
proof -
  define dt where "dt = to_datetime L (map c_date_entered c)"
  define rows where "rows = map (\<lambda>i. (c ! i, dt i, i)) [0..<length c]"
  define srt where "srt = sort_values dedupe_le rows"
  define P where "P = (\<lambda>x :: constituent \<times> int option \<times> nat. (c_patron_id \<circ> fst) x = k)"
  have d: "dedupe_constituents_latest L c = map fst (drop_duplicates (c_patron_id \<circ> fst) srt)"
    by (simp add: dedupe_constituents_latest_def Let_def dedupe_key_eq srt_def rows_def dt_def)
  have sorted: "sorted_wrt dedupe_le srt"
    unfolding srt_def using dedupe_le_total dedupe_le_trans by (rule sorted_sort_values)
  have set_srt: "set srt = set rows" by (simp add: srt_def set_sort_values)
  from assms obtain j0 where j0: "j0 < length c" "c_patron_id (c ! j0) = k"
    by (auto simp: in_set_conv_nth)
  then have "(c ! j0, dt j0, j0) \<in> set rows" by (auto simp: rows_def)
  moreover have "P (c ! j0, dt j0, j0)" using j0 by (simp add: P_def)
  ultimately have "\<exists>x \<in> set srt. P x" unfolding set_srt by blast
  then obtain x where fx: "find P srt = Some x"
    by (cases "find P srt") (auto simp: find_None_iff)
  from find_sorted_min [OF sorted fx]
  have x: "P x" "x \<in> set srt" "\<forall>y \<in> set srt. P y \<longrightarrow> y = x \<or> dedupe_le x y" by auto
  from x(2) obtain i where i: "i < length c" "x = (c ! i, dt i, i)"
    by (auto simp: set_srt rows_def)
  have "filter (\<lambda>r. c_patron_id r = k) (map fst (drop_duplicates (c_patron_id \<circ> fst) srt)) =
        map fst (filter P (drop_duplicates (c_patron_id \<circ> fst) srt))"
    by (simp add: filter_map P_def comp_def)
  also have "\<dots> = [c ! i]"
  proof -
    have "filter P (drop_duplicates (c_patron_id \<circ> fst) srt) =
          (case find P srt of None \<Rightarrow> [] | Some x \<Rightarrow> [x])"
      unfolding P_def by (rule drop_duplicates_filter)
    then show ?thesis using fx i by simp
  qed
  finally have f: "filter (\<lambda>r. c_patron_id r = k) (dedupe_constituents_latest L c) = [c ! i]"
    by (simp add: d)
  have m: "dedupe_le (c ! i, dt i, i) (c ! j, dt j, j)"
    if "j < length c" "c_patron_id (c ! j) = k" for j
  proof -
    have "(c ! j, dt j, j) \<in> set srt" using that by (auto simp: set_srt rows_def)
    moreover have "P (c ! j, dt j, j)" using that by (simp add: P_def)
    ultimately have "(c ! j, dt j, j) = x \<or> dedupe_le x (c ! j, dt j, j)" using x(3) by blast
    then show ?thesis using i by (auto simp: dedupe_le_def)
  qed
  from x(1) i have "c_patron_id (c ! i) = k" by (simp add: P_def)
  with i(1) f m show ?thesis unfolding dt_def by blast
qed

text \<open>
  C1 (as the code has it).  For every identity key of the input, the canonicaliser keeps
  exactly one row with that key.  The row kept has the latest parsed creation date among
  the key's rows, rows without a parsed date ranking last; among rows with equal (or
  equally missing) dates it is the one that occurs last in the input, since \<open>_row\<close> is
  sorted descending.
\<close>

theorem dedupe_constituents_latest_winner:
  assumes "k \<in> c_patron_id ` set c"
  shows "\<exists>i<length c. c_patron_id (c ! i) = k \<and>
     filter (\<lambda>r. c_patron_id r = k) (dedupe_constituents_latest L c) = [c ! i] \<and>
     (\<forall>j<length c. c_patron_id (c ! j) = k \<longrightarrow>
        (case to_datetime L (map c_date_entered c) i of
           None \<Rightarrow> to_datetime L (map c_date_entered c) j = None \<and> j \<le> i
         | Some ti \<Rightarrow>
            (case to_datetime L (map c_date_entered c) j of
               None \<Rightarrow> True
             | Some tj \<Rightarrow> tj < ti \<or> (tj = ti \<and> j \<le> i))))"
proof -
  from dedupe_winner [OF assms, of L] obtain i where i: "i < length c" "c_patron_id (c ! i) = k"
    "filter (\<lambda>r. c_patron_id r = k) (dedupe_constituents_latest L c) = [c ! i]"
    "\<forall>j<length c. c_patron_id (c ! j) = k \<longrightarrow> 
        dedupe_le (c ! i, to_datetime L (map c_date_entered c) i, i)
                  (c ! j, to_datetime L (map c_date_entered c) j, j)"
    by blast
  have "case to_datetime L (map c_date_entered c) i of
           None \<Rightarrow> to_datetime L (map c_date_entered c) j = None \<and> j \<le> i
         | Some ti \<Rightarrow>
            (case to_datetime L (map c_date_entered c) j of
               None \<Rightarrow> True
             | Some tj \<Rightarrow> tj < ti \<or> (tj = ti \<and> j \<le> i))"
    if "j < length c" "c_patron_id (c ! j) = k" for j
  proof -
    from i(4) that have "dedupe_le (c ! i, to_datetime L (map c_date_entered c) i, i)
                  (c ! j, to_datetime L (map c_date_entered c) j, j)" by blast
    with i(2) that(2) show ?thesis
      by (auto simp: dedupe_le_def nat_last_desc_lt_def split: option.splits)
  qed
  with i(1-3) show ?thesis by blast
qed

theorem dedupe_constituents_latest_winner_witness:
  "''1'' \<in> c_patron_id ` set [jane_doe_january, jane_smith_june] \<and>
   (\<exists>i<length [jane_doe_january, jane_smith_june].
      filter (\<lambda>r. c_patron_id r = ''1'')
        (dedupe_constituents_latest example_lib [jane_doe_january, jane_smith_june]) =
        [[jane_doe_january, jane_smith_june] ! i]) \<and>
   dedupe_constituents_latest example_lib [jane_doe_january, jane_smith_june] = [jane_smith_june]"
proof -
  have k: "''1'' \<in> c_patron_id ` set [jane_doe_january, jane_smith_june]"
    by (simp add: jane_doe_january_def example_constituent_def)
  have v: "dedupe_constituents_latest example_lib [jane_doe_january, jane_smith_june] =
        [jane_smith_june]"
    by code_simp
  from dedupe_constituents_latest_winner [OF k, of example_lib]
  have "\<exists>i<length [jane_doe_january, jane_smith_june].
      filter (\<lambda>r. c_patron_id r = ''1'')
        (dedupe_constituents_latest example_lib [jane_doe_january, jane_smith_june]) =
        [[jane_doe_january, jane_smith_june] ! i]"
    by blast
  with k v show ?thesis by blast
qed

text \<open>
  C1 as stated fails on the tie-break: of two rows with the same key and the same creation
  date, the second row of the input is kept, not the first.
\<close>

theorem dedupe_tie_keeps_later_row_counterexample:
  "dedupe_constituents_latest example_lib [jane_doe_january, jane_smith_january] =
     [jane_smith_january] \<and>
   jane_doe_january \<noteq> jane_smith_january \<and>
   c_patron_id jane_doe_january = c_patron_id jane_smith_january \<and>
   to_datetime example_lib (map c_date_entered [jane_doe_january, jane_smith_january]) 0 =
   to_datetime example_lib (map c_date_entered [jane_doe_january, jane_smith_january]) 1"
  by code_simp

section \<open>Properties of the contact resolver\<close>

lemma keys_dict_set: "fst ` set (dict_set k v d) = insert k (fst ` set d)"
proof (induction d)
  case Nil
  show ?case by simp
next
  case (Cons p d)
  obtain k' v' where p: "p = (k', v')" by (cases p)
  show ?case
  proof (cases "k' = k")
    case True
    then show ?thesis by (simp add: p)
  next
    case False
    then show ?thesis by (simp add: p Cons.IH insert_commute)
  qed
qed

lemma map_of_dict_set: "map_of (dict_set k v d) = (map_of d)(k \<mapsto> v)"
  by (induction d) (auto simp: fun_eq_iff)

lemma distinct_dict_set: "distinct (map fst d) \<Longrightarrow> distinct (map fst (dict_set k v d))"
  by (induction d) (auto simp: keys_dict_set)

lemma keys_dict_append: "map fst (dict_append k x d) = map fst d"
  by (induction d) (auto simp: dict_append_def)

lemma map_of_dict_append:
  "map_of (dict_append k x d) k' =
     (if k' = k then map_option (\<lambda>v. v @ [x]) (map_of d k) else map_of d k')"
  by (induction d) (auto simp: dict_append_def)

lemma candidates_init_aux:
  "distinct (map fst d) \<Longrightarrow>
   distinct (map fst (foldl (\<lambda>d pid. dict_set pid [] d) d pids)) \<and>
   fst ` set (foldl (\<lambda>d pid. dict_set pid [] d) d pids) = fst ` set d \<union> set pids \<and>
   (\<forall>k. map_of (foldl (\<lambda>d pid. dict_set pid [] d) d pids) k =
         (if k \<in> set pids then Some [] else map_of d k))"
proof (induction pids arbitrary: d)
  case Nil
  then show ?case by simp
next
  case (Cons p pids)
  from Cons.prems have "distinct (map fst (dict_set p [] d))" by (rule distinct_dict_set)
  from Cons.IH [OF this] show ?case
    by (auto simp: keys_dict_set map_of_dict_set)
qed

lemma candidates_init_props:
  "distinct (map fst (candidates_init pids))"
  "fst ` set (candidates_init pids) = set pids"
  "map_of (candidates_init pids) k = (if k \<in> set pids then Some [] else None)"
proof -
  have a: "distinct (map fst ([] :: (string \<times> string list) list))" by simp
  note p = candidates_init_aux [OF a, of pids, folded candidates_init_def]
  from p show "distinct (map fst (candidates_init pids))" by blast
  from p show "fst ` set (candidates_init pids) = set pids" by simp
  from p have "map_of (candidates_init pids) k = (if k \<in> set pids then Some [] else map_of [] k)"
    by blast
  then show "map_of (candidates_init pids) k = (if k \<in> set pids then Some [] else None)"
    by simp
qed

lemma add_primary_emails_props:
  "map fst (add_primary_emails rs d) = map fst d \<and>
   (\<forall>k. map_of (add_primary_emails rs d) k =
      map_option (\<lambda>v. v @ primary_events rs k) (map_of d k))"
proof (induction rs arbitrary: d)
  case Nil
  show ?case by (simp add: primary_events_def option.map_ident)
next
  case (Cons r rs)
  show ?case
    by (auto simp: Cons.IH Let_def keys_dict_append map_of_dict_append primary_events_def
        valid_candidate_def option.map_comp comp_def)
qed

lemma add_table_emails_props:
  "distinct (map fst d) \<Longrightarrow>
   distinct (map fst (add_table_emails rs d)) \<and>
   (\<forall>k. map_of (add_table_emails rs d) k =
      (case map_of d k of
         Some v \<Rightarrow> Some (v @ spec_table_candidates rs k)
       | None \<Rightarrow> (if spec_table_candidates rs k = [] then None
                   else Some (spec_table_candidates rs k))))"
proof (induction rs arbitrary: d)
  case Nil
  then show ?case by (auto simp: spec_table_candidates_def split: option.splits)
next
  case (Cons r rs)
  define pid where "pid = e_patron_id r"
  define email where "email = standardize_email (e_email r)"
  show ?case
  proof (cases "valid_candidate email")
    case False
    then have a: "add_table_emails (r # rs) d = add_table_emails rs d"
      by (auto simp: Let_def email_def valid_candidate_def)
    from False have b: "spec_table_candidates (r # rs) k = spec_table_candidates rs k" for k
      by (simp add: spec_table_candidates_def email_def)
    show ?thesis unfolding a b using Cons.IH [OF Cons.prems] .
  next
    case True
    define d' where "d' = (if pid \<notin> fst ` set d then dict_set pid [] d else d)"
    define d'' where "d'' = dict_append pid email d'"
    have a: "add_table_emails (r # rs) d = add_table_emails rs d''"
      using True by (auto simp: Let_def email_def valid_candidate_def d'_def d''_def pid_def)
    have dd': "distinct (map fst d')" using Cons.prems by (simp add: d'_def distinct_dict_set)
    then have dd'': "distinct (map fst d'')" by (simp add: d''_def keys_dict_append)
    have m': "map_of d' k = (if k = pid then (case map_of d pid of None \<Rightarrow> Some [] | Some v \<Rightarrow> Some v)
                else map_of d k)" for k
    proof -
      have "(pid \<notin> fst ` set d) = (map_of d pid = None)" by (simp add: map_of_eq_None_iff)
      then show ?thesis by (auto simp: d'_def map_of_dict_set split: option.splits)
    qed
    have m'': "map_of d'' k = (if k = pid then (case map_of d pid of None \<Rightarrow> Some [email] | Some v \<Rightarrow> Some (v @ [email]))
                else map_of d k)" for k
      by (auto simp: d''_def map_of_dict_append m' split: option.splits)
    have b: "spec_table_candidates (r # rs) k =
        (if k = pid then email # spec_table_candidates rs k else spec_table_candidates rs k)" for k
      using True by (auto simp: spec_table_candidates_def email_def pid_def)
    from Cons.IH [OF dd''] show ?thesis
      unfolding a by (auto simp: m'' b split: option.splits)
  qed
qed

lemma filter_key_distinct:
  "distinct (map f xs) \<Longrightarrow>
   filter (\<lambda>x. f x = k) xs = (case find (\<lambda>x. f x = k) xs of None \<Rightarrow> [] | Some x \<Rightarrow> [x])"
proof (induction xs)
  case Nil
  show ?case by simp
next
  case (Cons x xs)
  show ?case
  proof (cases "f x = k")
    case True
    with Cons.prems have "k \<notin> f ` set xs" by auto
    then have "filter (\<lambda>x. f x = k) xs = []" by (auto simp: filter_empty_conv)
    with True show ?thesis by simp
  next
    case False
    with Cons show ?thesis by simp
  qed
qed

lemma primary_events_spec:
  "distinct (map c_patron_id cs) \<Longrightarrow> primary_events cs k = spec_primary_candidates cs k"
  by (simp add: primary_events_def spec_primary_candidates_def filter_key_distinct
      split: option.splits)

lemma spec_primary_candidates_absent:
  "k \<notin> c_patron_id ` set cs \<Longrightarrow> spec_primary_candidates cs k = []"
proof -
  assume "k \<notin> c_patron_id ` set cs"
  then have "find (\<lambda>r. c_patron_id r = k) cs = None" by (auto simp: find_None_iff)
  then show ?thesis by (simp add: spec_primary_candidates_def)
qed

lemma drop_duplicates_loop_first_occurrences:
  "drop_duplicates_loop (\<lambda>x. x) xs seen = first_occurrences (filter (\<lambda>x. x \<notin> seen) xs)"
proof (induction xs arbitrary: seen)
  case Nil
  show ?case by simp
next
  case (Cons x xs)
  show ?case
  proof (cases "x \<in> seen")
    case True
    then show ?thesis by (simp add: Cons.IH)
  next
    case False
    have f: "filter (\<lambda>y. y \<noteq> x) (filter (\<lambda>y. y \<notin> seen) xs) =
             filter (\<lambda>y. y \<notin> insert x seen) xs"
      by (induction xs) auto
    from False have "drop_duplicates_loop (\<lambda>x. x) (x # xs) seen =
        x # drop_duplicates_loop (\<lambda>x. x) xs (insert x seen)"
      by simp
    also have "\<dots> = x # first_occurrences (filter (\<lambda>y. y \<notin> insert x seen) xs)"
      by (simp only: Cons.IH)
    also have "\<dots> = first_occurrences (x # filter (\<lambda>y. y \<notin> seen) xs)"
      by (simp only: first_occurrences.simps f)
    also have "\<dots> = first_occurrences (filter (\<lambda>y. y \<notin> seen) (x # xs))"
      using False by simp
    finally show ?thesis .
  qed
qed

lemma drop_duplicates_first_occurrences:
  "drop_duplicates (\<lambda>x. x) xs = first_occurrences xs"
  by (simp add: drop_duplicates_def drop_duplicates_loop_first_occurrences)

lemma email_pair_spec:
  assumes "[] \<notin> set arr"
  shows "email_pair arr =
     (spec_email_1 (drop_duplicates (\<lambda>x. x) arr), spec_email_2 (drop_duplicates (\<lambda>x. x) arr))"
proof -
  define uniq where "uniq = drop_duplicates (\<lambda>x. x) arr"
  have d: "distinct uniq"
    using distinct_drop_duplicates [of "\<lambda>x. x" arr] by (simp add: uniq_def)
  have s: "[] \<notin> set uniq"
    using set_drop_duplicates [of "\<lambda>x. x" arr] assms by (auto simp: uniq_def)
  have F: "(let email1 = (if length uniq \<ge> 1 then uniq ! 0 else []);
          email2 = (if email1 \<noteq> [] \<and> length uniq \<ge> 2
                    then (let e2 = uniq ! 1 in if e2 = email1 then [] else e2)
                    else [])
      in (email1, email2)) = (spec_email_1 uniq, spec_email_2 uniq)"
  proof (cases uniq)
    case Nil
    then show ?thesis by (simp add: spec_email_1_def spec_email_2_def)
  next
    case (Cons x ys)
    with s have x: "x \<noteq> []" by auto
    show ?thesis
    proof (cases ys)
      case Nil
      with Cons x show ?thesis by (simp add: spec_email_1_def spec_email_2_def)
    next
      case (Cons y zs)
      with \<open>uniq = x # ys\<close> d have "y \<noteq> x" by auto
      with Cons \<open>uniq = x # ys\<close> x show ?thesis
        by (simp add: spec_email_1_def spec_email_2_def Let_def)
    qed
  qed
  show ?thesis
    unfolding email_pair_def Let_def uniq_def [symmetric] by (rule F [unfolded Let_def])
qed

lemma map_of_map_pair:
  "map_of (map (\<lambda>(k, v). (k, f v)) xs) k = map_option f (map_of xs k)"
  by (induction xs) auto

lemma candidates_final:
  fixes cs :: "constituent list" and emails :: "email_row list"
  assumes "distinct (map c_patron_id cs)"
  defines "d2 \<equiv> add_table_emails emails
                  (add_primary_emails cs (candidates_init (map c_patron_id cs)))"
  shows "distinct (map fst d2)"
    and "map_of d2 k =
      (if k \<in> c_patron_id ` set cs \<or> spec_table_candidates emails k \<noteq> []
       then Some (spec_primary_candidates cs k @ spec_table_candidates emails k) else None)"
proof -
  define d0 where "d0 = candidates_init (map c_patron_id cs)"
  define d1 where "d1 = add_primary_emails cs d0"
  have dist1: "distinct (map fst d1)"
    using add_primary_emails_props [of cs d0] candidates_init_props(1) [of "map c_patron_id cs"]
    by (simp add: d1_def d0_def)
  have m1: "map_of d1 k = (if k \<in> c_patron_id ` set cs then Some (spec_primary_candidates cs k) else None)"
    using add_primary_emails_props [of cs d0] candidates_init_props(3) [of "map c_patron_id cs" k]
      primary_events_spec [OF assms(1)]
    by (simp add: d1_def d0_def)
  have d2: "d2 = add_table_emails emails d1" by (simp add: d2_def d1_def d0_def)
  from add_table_emails_props [OF dist1, of emails]
  show "distinct (map fst d2)" unfolding d2 by blast
  from add_table_emails_props [OF dist1, of emails]
  have "map_of d2 k = (case map_of d1 k of
         Some v \<Rightarrow> Some (v @ spec_table_candidates emails k)
       | None \<Rightarrow> (if spec_table_candidates emails k = [] then None
                   else Some (spec_table_candidates emails k)))"
    unfolding d2 by blast
  then show "map_of d2 k =
      (if k \<in> c_patron_id ` set cs \<or> spec_table_candidates emails k \<noteq> []
       then Some (spec_primary_candidates cs k @ spec_table_candidates emails k) else None)"
    by (auto simp: m1 spec_primary_candidates_absent)
qed

lemma candidates_nonempty:
  "[] \<notin> set (spec_primary_candidates cs k @ spec_table_candidates emails k)"
  by (auto simp: spec_primary_candidates_def spec_table_candidates_def valid_candidate_def
      split: option.splits)

text \<open>
  C3.  On a constituent table with one row per identity (as the canonicaliser delivers
  it), the resolver has exactly one row for every identity of the constituent table and
  for every identity with a valid entry in the email table, and no other row.  The row
  holds Email 1 and Email 2 of the identity's candidate list: the validated primary email
  first, then the identity's validated email-table entries in file order, de-duplicated
  keeping first occurrences; Email 1 is the first candidate or empty, Email 2 the second
  candidate if there is one distinct from Email 1, else empty.
\<close>

theorem build_email_columns_candidates:
  assumes "distinct (map c_patron_id constituents)"
  shows "distinct (map fst (build_email_columns constituents emails)) \<and>
    map_of (build_email_columns constituents emails) pid =
      (if pid \<in> c_patron_id ` set constituents \<or> spec_table_candidates emails pid \<noteq> []
       then Some (spec_email_1 (spec_candidates constituents emails pid),
                  spec_email_2 (spec_candidates constituents emails pid))
       else None)"
proof -
  define d2 where "d2 = add_table_emails emails
                  (add_primary_emails constituents (candidates_init (map c_patron_id constituents)))"
  have b: "build_email_columns constituents emails = map (\<lambda>(pid, arr). (pid, email_pair arr)) d2"
    by (simp add: build_email_columns_def d2_def)
  have k: "map fst (map (\<lambda>(pid, arr). (pid, email_pair arr)) d2) = map fst d2"
    by (induction d2) auto
  have "distinct (map fst d2)"
    unfolding d2_def using assms by (rule candidates_final(1))
  then have dist: "distinct (map fst (build_email_columns constituents emails))"
    by (simp only: b k)
  have m: "map_of d2 pid =
      (if pid \<in> c_patron_id ` set constituents \<or> spec_table_candidates emails pid \<noteq> []
       then Some (spec_primary_candidates constituents pid @ spec_table_candidates emails pid)
       else None)"
    unfolding d2_def using assms by (rule candidates_final(2))
  have "map_of (build_email_columns constituents emails) pid = map_option email_pair (map_of d2 pid)"
    unfolding b by (rule map_of_map_pair)
  also have "\<dots> = (if pid \<in> c_patron_id ` set constituents \<or> spec_table_candidates emails pid \<noteq> []
       then Some (spec_email_1 (spec_candidates constituents emails pid),
                  spec_email_2 (spec_candidates constituents emails pid))
       else None)"
    unfolding m using candidates_nonempty [of constituents pid emails]
    by (simp add: email_pair_spec spec_candidates_def drop_duplicates_first_occurrences)
  finally show ?thesis using dist by blast
qed

theorem build_email_columns_candidates_witness:
  "distinct (map c_patron_id [jane_with_email]) \<and>
   spec_candidates [jane_with_email] example_emails_two ''1'' =
     [''jane@example.com'', ''j.doe@example.org''] \<and>
   map_of (build_email_columns [jane_with_email] example_emails_two) ''1'' =
     Some (''jane@example.com'', ''j.doe@example.org'') \<and>
   ''3'' \<notin> c_patron_id ` set [jane_with_email] \<and>
   map_of (build_email_columns [jane_with_email] example_emails_two) ''3'' =
     Some (''bob@example.org'', []) \<and>
   map_of (build_email_columns [jane_with_email] example_emails_two) ''4'' = None"
proof -
  have d: "distinct (map c_patron_id [jane_with_email])" by simp
  have a: "''3'' \<notin> c_patron_id ` set [jane_with_email]" by code_simp
  have c: "spec_candidates [jane_with_email] example_emails_two ''1'' =
     [''jane@example.com'', ''j.doe@example.org'']"
    by code_simp
  have r1: "(if ''1'' \<in> c_patron_id ` set [jane_with_email] \<or>
               spec_table_candidates example_emails_two ''1'' \<noteq> []
       then Some (spec_email_1 (spec_candidates [jane_with_email] example_emails_two ''1''),
                  spec_email_2 (spec_candidates [jane_with_email] example_emails_two ''1''))
       else None) = Some (''jane@example.com'', ''j.doe@example.org'')"
    by code_simp
  have r3: "(if ''3'' \<in> c_patron_id ` set [jane_with_email] \<or>
               spec_table_candidates example_emails_two ''3'' \<noteq> []
       then Some (spec_email_1 (spec_candidates [jane_with_email] example_emails_two ''3''),
                  spec_email_2 (spec_candidates [jane_with_email] example_emails_two ''3''))
       else None) = Some (''bob@example.org'', [])"
    by code_simp
  have r4: "(if ''4'' \<in> c_patron_id ` set [jane_with_email] \<or>
               spec_table_candidates example_emails_two ''4'' \<noteq> []
       then Some (spec_email_1 (spec_candidates [jane_with_email] example_emails_two ''4''),
                  spec_email_2 (spec_candidates [jane_with_email] example_emails_two ''4''))
       else None) = None"
    by code_simp
  from build_email_columns_candidates [OF d, of example_emails_two "''1''"]
  have e1: "map_of (build_email_columns [jane_with_email] example_emails_two) ''1'' =
     Some (''jane@example.com'', ''j.doe@example.org'')"
    unfolding r1 by blast
  from build_email_columns_candidates [OF d, of example_emails_two "''3''"]
  have e3: "map_of (build_email_columns [jane_with_email] example_emails_two) ''3'' =
     Some (''bob@example.org'', [])"
    unfolding r3 by blast
  from build_email_columns_candidates [OF d, of example_emails_two "''4''"]
  have e4: "map_of (build_email_columns [jane_with_email] example_emails_two) ''4'' = None"
    unfolding r4 by blast
  from d c e1 a e3 e4 show ?thesis by (intro conjI)
qed

section \<open>Properties of the record assembler\<close>

lemma email_pair_invariant:
  "email_pair arr = (e1, e2) \<Longrightarrow> (e1 = [] \<longrightarrow> e2 = []) \<and> (e2 \<noteq> [] \<longrightarrow> e1 \<noteq> e2)"
  by (auto simp: email_pair_def Let_def split: if_splits)

lemma build_email_columns_invariant:
  "(pid, e1, e2) \<in> set (build_email_columns c emails) \<Longrightarrow>
     (e1 = [] \<longrightarrow> e2 = []) \<and> (e2 \<noteq> [] \<longrightarrow> e1 \<noteq> e2)"
proof -
  assume "(pid, e1, e2) \<in> set (build_email_columns c emails)"
  then obtain arr where "email_pair arr = (e1, e2)"
    by (auto simp: build_email_columns_def Let_def)
  then show ?thesis by (rule email_pair_invariant)
qed

lemma transform_rows:
  assumes "transform L constituents emails donations mapping = Inr (out, tags_out)"
    and "r \<in> set out"
  shows "\<exists>pid. r = assemble_row L mapping (dedupe_constituents_latest L constituents)
           (build_email_columns (dedupe_constituents_latest L constituents) emails)
           (build_donation_metrics L donations) pid"
  using assms by (auto simp: transform_def Let_def split: if_splits)

lemma transform_tags:
  assumes "transform L constituents emails donations mapping = Inr (out, tags_out)"
  shows "tags_out = tag_counts (map (\<lambda>r. (c_patron_id r, mapped_tags_of mapping r))
            (dedupe_constituents_latest L constituents))"
  using assms by (auto simp: transform_def Let_def split: if_splits)

lemma dedupe_empty: "dedupe_constituents_latest L [] = []"
  by (simp add: dedupe_constituents_latest_def sort_values_def drop_duplicates_def)

lemma add_table_emails_no_valid:
  "\<forall>r \<in> set emails. \<not> valid_candidate (standardize_email (e_email r)) \<Longrightarrow>
   add_table_emails emails candidates = candidates"
  by (induction emails arbitrary: candidates) (auto simp: valid_candidate_def Let_def)

lemma build_email_columns_empty:
  "\<forall>r \<in> set emails. \<not> valid_candidate (standardize_email (e_email r)) \<Longrightarrow>
   build_email_columns [] emails = []"
  by (simp add: build_email_columns_def candidates_init_def add_table_emails_no_valid)

lemma build_email_columns_nonempty:
  assumes "distinct (map c_patron_id cs)" and "cs \<noteq> []"
  shows "build_email_columns cs emails \<noteq> []"
proof -
  define d2 where "d2 = add_table_emails emails
                  (add_primary_emails cs (candidates_init (map c_patron_id cs)))"
  from assms(2) obtain r where "r \<in> set cs" by (cases cs) auto
  then have "c_patron_id r \<in> c_patron_id ` set cs" by simp
  then have "map_of d2 (c_patron_id r) \<noteq> None"
    unfolding d2_def by (simp add: candidates_final(2) [OF assms(1)])
  then have "d2 \<noteq> []" by auto
  then show ?thesis by (simp add: build_email_columns_def d2_def)
qed

lemma dedupe_nonempty:
  assumes "constituents \<noteq> []"
  shows "dedupe_constituents_latest L constituents \<noteq> []"
proof -
  from assms obtain r where "r \<in> set constituents" by (cases constituents) auto
  then have "c_patron_id r \<in> c_patron_id ` set constituents" by simp
  from dedupe_winner [OF this, of L] obtain i where
    "filter (\<lambda>x. c_patron_id x = c_patron_id r) (dedupe_constituents_latest L constituents) =
       [constituents ! i]"
    by blast
  then show ?thesis by auto
qed

lemma transform_returns:
  assumes "constituents \<noteq> []"
  shows "\<exists>out. transform L constituents emails donations mapping =
           Inr (out, tag_counts (map (\<lambda>r. (c_patron_id r, mapped_tags_of mapping r))
                  (dedupe_constituents_latest L constituents)))"
proof -
  have "build_email_columns (dedupe_constituents_latest L constituents) emails \<noteq> []"
    using dedupe_distinct dedupe_nonempty [OF assms] by (rule build_email_columns_nonempty)
  then show ?thesis by (simp add: transform_def Let_def)
qed

lemma assemble_row_emails:
  assumes "r = assemble_row L mapping c email_cols donation_metrics pid"
    and inv: "\<And>p e1 e2. (p, e1, e2) \<in> set email_cols \<Longrightarrow>
           (e1 = [] \<longrightarrow> e2 = []) \<and> (e2 \<noteq> [] \<longrightarrow> e1 \<noteq> e2)"
  shows "((cb_email_1 r = None \<or> cb_email_1 r = Some []) \<longrightarrow> cb_email_2 r = Some []) \<and>
         (\<forall>a b. cb_email_1 r = Some a \<and> cb_email_2 r = Some b \<and> a \<noteq> [] \<and> b \<noteq> [] \<longrightarrow> a \<noteq> b)"
proof (cases "map_of email_cols pid")
  case None
  then show ?thesis by (simp add: assms(1) assemble_row_def Let_def)
next
  case (Some e)
  obtain e1 e2 where e: "e = (e1, e2)" by (cases e)
  from Some e have "(pid, e1, e2) \<in> set email_cols" by (auto dest: map_of_SomeD)
  from inv [OF this] Some e show ?thesis
    by (auto simp: assms(1) assemble_row_def Let_def)
qed

lemma assemble_row_names:
  assumes "r = assemble_row L mapping c email_cols donation_metrics pid"
  shows "cb_constituent_id r = pid"
    and "cb_constituent_type r = ''Person'' \<or> cb_constituent_type r = ''Company''"
    and "cb_constituent_type r = ''Person'' \<Longrightarrow> cb_first_name r \<noteq> [] \<and> cb_last_name r \<noteq> []"
    and "cb_constituent_type r = ''Person'' \<Longrightarrow>
         (case find (\<lambda>x. c_patron_id x = pid) c of
            None \<Rightarrow> True
          | Some x \<Rightarrow> clean_str (c_first_name x) = [] \<or> clean_str (c_last_name x) = []) \<Longrightarrow>
         cb_first_name r = ''Unknown'' \<and> cb_last_name r = ''Unknown-'' @ pid"
    and "cb_constituent_type r = ''Company'' \<Longrightarrow> cb_company_name r \<noteq> []"
proof -
  show "cb_constituent_id r = pid" by (simp add: assms assemble_row_def Let_def)
  show "cb_constituent_type r = ''Person'' \<or> cb_constituent_type r = ''Company''"
    by (simp add: assms assemble_row_def Let_def classify_constituent_type_def split: option.splits)
  show "cb_constituent_type r = ''Person'' \<Longrightarrow> cb_first_name r \<noteq> [] \<and> cb_last_name r \<noteq> []"
    by (auto simp: assms assemble_row_def Let_def fill_missing_person_names_def)
  show "cb_constituent_type r = ''Person'' \<Longrightarrow>
         (case find (\<lambda>x. c_patron_id x = pid) c of
            None \<Rightarrow> True
          | Some x \<Rightarrow> clean_str (c_first_name x) = [] \<or> clean_str (c_last_name x) = []) \<Longrightarrow>
         cb_first_name r = ''Unknown'' \<and> cb_last_name r = ''Unknown-'' @ pid"
    by (auto simp: assms assemble_row_def Let_def fill_missing_person_names_def merged_cell_def
        clean_str_def split: option.splits)
  show "cb_constituent_type r = ''Company'' \<Longrightarrow> cb_company_name r \<noteq> []"
    by (auto simp: assms assemble_row_def Let_def classify_constituent_type_def merged_cell_def
        split: option.splits if_splits)
qed

lemma example_transform_returns:
  "example_transform = Inr (projr example_transform)" "fst (projr example_transform) \<noteq> []"
  by code_simp+

text \<open>
  C2.  In every row of the constituents table that \<open>transform\<close> returns, if CB Email 1 is
  empty (the empty text, or missing as for an identity known from donations only) then
  CB Email 2 is the empty text, and if both are non-empty they differ.
\<close>

theorem transform_email_invariant:
  assumes "transform L constituents emails donations mapping = Inr (out, tags_out)"
    and "r \<in> set out"
  shows "((cb_email_1 r = None \<or> cb_email_1 r = Some []) \<longrightarrow> cb_email_2 r = Some []) \<and>
         (\<forall>a b. cb_email_1 r = Some a \<and> cb_email_2 r = Some b \<and> a \<noteq> [] \<and> b \<noteq> [] \<longrightarrow> a \<noteq> b)"
proof -
  from transform_rows [OF assms] obtain pid where
    r: "r = assemble_row L mapping (dedupe_constituents_latest L constituents)
           (build_email_columns (dedupe_constituents_latest L constituents) emails)
           (build_donation_metrics L donations) pid"
    by blast
  show ?thesis
    using r by (rule assemble_row_emails) (rule build_email_columns_invariant)
qed

theorem transform_email_invariant_witness:
  "\<exists>out tags_out.
     transform example_lib example_constituents example_emails example_donations example_mapping
       = Inr (out, tags_out) \<and>
     map cb_email_1 out = [Some ''jane@example.com'', None, Some ''bob@example.org'', Some [], Some []] \<and>
     (\<forall>r \<in> set out.
        ((cb_email_1 r = None \<or> cb_email_1 r = Some []) \<longrightarrow> cb_email_2 r = Some []) \<and>
        (\<forall>a b. cb_email_1 r = Some a \<and> cb_email_2 r = Some b \<and> a \<noteq> [] \<and> b \<noteq> [] \<longrightarrow> a \<noteq> b))"
proof -
  obtain out tags_out where p: "projr example_transform = (out, tags_out)"
    by (cases "projr example_transform")
  with example_transform_returns(1)
  have t: "transform example_lib example_constituents example_emails example_donations
             example_mapping = Inr (out, tags_out)"
    by (simp add: example_transform_def)
  have "map cb_email_1 (fst (projr example_transform)) =
          [Some ''jane@example.com'', None, Some ''bob@example.org'', Some [], Some []]"
    by code_simp
  with p have m: "map cb_email_1 out =
          [Some ''jane@example.com'', None, Some ''bob@example.org'', Some [], Some []]"
    by simp
  have inv: "\<forall>r \<in> set out.
        ((cb_email_1 r = None \<or> cb_email_1 r = Some []) \<longrightarrow> cb_email_2 r = Some []) \<and>
        (\<forall>a b. cb_email_1 r = Some a \<and> cb_email_2 r = Some b \<and> a \<noteq> [] \<and> b \<noteq> [] \<longrightarrow> a \<noteq> b)"
  proof
    fix r assume "r \<in> set out"
    with t show "((cb_email_1 r = None \<or> cb_email_1 r = Some []) \<longrightarrow> cb_email_2 r = Some []) \<and>
        (\<forall>a b. cb_email_1 r = Some a \<and> cb_email_2 r = Some b \<and> a \<noteq> [] \<and> b \<noteq> [] \<longrightarrow> a \<noteq> b)"
      by (rule transform_email_invariant)
  qed
  show ?thesis
    apply (rule exI [of _ out])
    apply (rule exI [of _ tags_out])
    apply (intro conjI)
      apply (rule t)
     apply (rule m)
    apply (rule inv)
    done
qed

text \<open>
  C9.  In every row of the constituents table that \<open>transform\<close> returns, the type is
  Person or Company; a Person row has a non-empty first and last name, which are the
  placeholder \<open>Unknown\<close> and \<open>Unknown-\<close> followed by the identity key whenever the identity
  has no row in the canonical constituent table or its first or last name is blank; a
  Company row has a non-empty company name.
\<close>

theorem transform_names_invariant:
  assumes "transform L constituents emails donations mapping = Inr (out, tags_out)"
    and "r \<in> set out"
  shows "(cb_constituent_type r = ''Person'' \<or> cb_constituent_type r = ''Company'') \<and>
     (cb_constituent_type r = ''Person'' \<longrightarrow>
        cb_first_name r \<noteq> [] \<and> cb_last_name r \<noteq> [] \<and>
        ((case find (\<lambda>x. c_patron_id x = cb_constituent_id r)
                 (dedupe_constituents_latest L constituents) of
            None \<Rightarrow> True
          | Some x \<Rightarrow> clean_str (c_first_name x) = [] \<or> clean_str (c_last_name x) = []) \<longrightarrow>
         cb_first_name r = ''Unknown'' \<and>
         cb_last_name r = ''Unknown-'' @ cb_constituent_id r)) \<and>
     (cb_constituent_type r = ''Company'' \<longrightarrow> cb_company_name r \<noteq> [])"
proof -
  from transform_rows [OF assms] obtain pid where
    r: "r = assemble_row L mapping (dedupe_constituents_latest L constituents)
           (build_email_columns (dedupe_constituents_latest L constituents) emails)
           (build_donation_metrics L donations) pid"
    by blast
  note n = assemble_row_names [OF r]
  from n(2) n(3) n(4) [unfolded n(1) [symmetric]] n(5) show ?thesis by blast
qed

theorem transform_names_invariant_witness:
  "\<exists>out tags_out.
     transform example_lib example_constituents example_emails example_donations example_mapping
       = Inr (out, tags_out) \<and>
     map (\<lambda>r. (cb_constituent_type r, cb_first_name r, cb_last_name r, cb_company_name r)) out =
       [(''Person'', ''Jane'', ''Doe'', []), (''Person'', ''Unknown'', ''Unknown-2'', []),
        (''Person'', ''Unknown'', ''Unknown-3'', []), (''Company'', [], [], ''Acme Ltd''),
        (''Person'', ''Unknown'', ''Unknown-6'', [])] \<and>
     (\<forall>r \<in> set out.
       (cb_constituent_type r = ''Person'' \<or> cb_constituent_type r = ''Company'') \<and>
       (cb_constituent_type r = ''Person'' \<longrightarrow>
          cb_first_name r \<noteq> [] \<and> cb_last_name r \<noteq> [] \<and>
          ((case find (\<lambda>x. c_patron_id x = cb_constituent_id r)
                   (dedupe_constituents_latest example_lib example_constituents) of
              None \<Rightarrow> True
            | Some x \<Rightarrow> clean_str (c_first_name x) = [] \<or> clean_str (c_last_name x) = []) \<longrightarrow>
           cb_first_name r = ''Unknown'' \<and>
           cb_last_name r = ''Unknown-'' @ cb_constituent_id r)) \<and>
       (cb_constituent_type r = ''Company'' \<longrightarrow> cb_company_name r \<noteq> []))"
proof -
  obtain out tags_out where p: "projr example_transform = (out, tags_out)"
    by (cases "projr example_transform")
  with example_transform_returns(1)
  have t: "transform example_lib example_constituents example_emails example_donations
             example_mapping = Inr (out, tags_out)"
    by (simp add: example_transform_def)
  have "map (\<lambda>r. (cb_constituent_type r, cb_first_name r, cb_last_name r, cb_company_name r))
          (fst (projr example_transform)) =
       [(''Person'', ''Jane'', ''Doe'', []), (''Person'', ''Unknown'', ''Unknown-2'', []),
        (''Person'', ''Unknown'', ''Unknown-3'', []), (''Company'', [], [], ''Acme Ltd''),
        (''Person'', ''Unknown'', ''Unknown-6'', [])]"
    by code_simp
  with p have m: "map (\<lambda>r. (cb_constituent_type r, cb_first_name r, cb_last_name r, cb_company_name r)) out =
       [(''Person'', ''Jane'', ''Doe'', []), (''Person'', ''Unknown'', ''Unknown-2'', []),
        (''Person'', ''Unknown'', ''Unknown-3'', []), (''Company'', [], [], ''Acme Ltd''),
        (''Person'', ''Unknown'', ''Unknown-6'', [])]"
    by simp
  have inv: "\<forall>r \<in> set out.
       (cb_constituent_type r = ''Person'' \<or> cb_constituent_type r = ''Company'') \<and>
       (cb_constituent_type r = ''Person'' \<longrightarrow>
          cb_first_name r \<noteq> [] \<and> cb_last_name r \<noteq> [] \<and>
          ((case find (\<lambda>x. c_patron_id x = cb_constituent_id r)
                   (dedupe_constituents_latest example_lib example_constituents) of
              None \<Rightarrow> True
            | Some x \<Rightarrow> clean_str (c_first_name x) = [] \<or> clean_str (c_last_name x) = []) \<longrightarrow>
           cb_first_name r = ''Unknown'' \<and>
           cb_last_name r = ''Unknown-'' @ cb_constituent_id r)) \<and>
       (cb_constituent_type r = ''Company'' \<longrightarrow> cb_company_name r \<noteq> [])"
  proof
    fix r assume "r \<in> set out"
    with t show "(cb_constituent_type r = ''Person'' \<or> cb_constituent_type r = ''Company'') \<and>
       (cb_constituent_type r = ''Person'' \<longrightarrow>
          cb_first_name r \<noteq> [] \<and> cb_last_name r \<noteq> [] \<and>
          ((case find (\<lambda>x. c_patron_id x = cb_constituent_id r)
                   (dedupe_constituents_latest example_lib example_constituents) of
              None \<Rightarrow> True
            | Some x \<Rightarrow> clean_str (c_first_name x) = [] \<or> clean_str (c_last_name x) = []) \<longrightarrow>
           cb_first_name r = ''Unknown'' \<and>
           cb_last_name r = ''Unknown-'' @ cb_constituent_id r)) \<and>
       (cb_constituent_type r = ''Company'' \<longrightarrow> cb_company_name r \<noteq> [])"
      by (rule transform_names_invariant)
  qed
  show ?thesis
    apply (rule exI [of _ out])
    apply (rule exI [of _ tags_out])
    apply (intro conjI)
      apply (rule t)
     apply (rule m)
    apply (rule inv)
    done
qed

section \<open>Properties of the tag counter\<close>

lemma set_drop_duplicates_id: "set (drop_duplicates (\<lambda>x. x) xs) = set xs"
  using keys_drop_duplicates [of "\<lambda>x. x" xs] by simp

lemma distinct_map_insort_by:
  "distinct (map f (insort_by le x xs)) = (f x \<notin> f ` set xs \<and> distinct (map f xs))"
  by (induction xs) (auto simp: set_insort_by)

lemma distinct_map_sort_values: "distinct (map f (sort_values le xs)) = distinct (map f xs)"
proof (induction xs)
  case Nil
  show ?case by (simp add: sort_values_def)
next
  case (Cons x xs)
  have "sort_values le (x # xs) = insort_by le x (sort_values le xs)"
    by (simp add: sort_values_def)
  then show ?case by (simp add: distinct_map_insort_by set_sort_values Cons.IH)
qed

lemma tag_count_le_total: "tag_count_le a b \<or> tag_count_le b a"
  by (cases a; cases b) (auto simp: tag_count_le_def)

lemma tag_count_le_trans: "tag_count_le a b \<Longrightarrow> tag_count_le b c \<Longrightarrow> tag_count_le a c"
  by (cases a; cases b; cases c) (auto simp: tag_count_le_def)

lemma set_tag_rows:
  "set (concat (map (\<lambda>(pid, tgs). map (\<lambda>t. (pid, t)) tgs) tagged)) =
     {(pid, t). \<exists>tgs. (pid, tgs) \<in> set tagged \<and> t \<in> set tgs}"
  by (induction tagged) auto

lemma tag_rows_empty:
  "(concat (map (\<lambda>(pid, tgs). map (\<lambda>t. (pid, t)) tgs) tagged) = []) =
     (\<forall>(pid, tgs) \<in> set tagged. tgs = [])"
  by (induction tagged) auto

lemma tag_counts_nonempty:
  fixes tagged :: "(string \<times> string list) list"
  defines "tag_rows \<equiv> concat (map (\<lambda>(pid, tgs). map (\<lambda>t. (pid, t)) tgs) tagged)"
  assumes ne: "tag_rows \<noteq> []"
  shows "distinct (map fst (tt_rows (tag_counts tagged)))"
    and "fst ` set (tt_rows (tag_counts tagged)) = snd ` set tag_rows"
    and "(t, n) \<in> set (tt_rows (tag_counts tagged)) \<Longrightarrow> n = card {pid. (pid, t) \<in> set tag_rows}"
    and "sorted_wrt tag_count_le (tt_rows (tag_counts tagged))"
proof -
  define U where "U = drop_duplicates (\<lambda>x. x) tag_rows"
  define names where "names = sort (remdups (map snd U))"
  define cnt where "cnt = (\<lambda>t. length (remdups (map fst (filter (\<lambda>(p, t'). t' = t) U))))"
  define counted where "counted = map (\<lambda>t. (t, cnt t)) names"
  from ne have ne': "concat (map (\<lambda>(pid, tgs). map (\<lambda>t. (pid, t)) tgs) tagged) \<noteq> []"
    unfolding tag_rows_def .
  have rows: "tt_rows (tag_counts tagged) = sort_values tag_count_le counted"
    unfolding counted_def cnt_def names_def U_def tag_rows_def tag_counts_def Let_def
    by (simp only: ne' if_False tags_table.select_convs)
  have setU: "set U = set tag_rows" by (simp add: U_def set_drop_duplicates_id)
  have dn: "distinct names" by (simp add: names_def)
  have sn: "set names = snd ` set tag_rows" by (simp add: names_def setU)
  have fc: "map fst counted = names" by (simp add: counted_def comp_def)
  show "distinct (map fst (tt_rows (tag_counts tagged)))"
    by (simp only: rows distinct_map_sort_values fc dn)
  have "fst ` set (tt_rows (tag_counts tagged)) = set (map fst counted)"
    by (simp add: rows set_sort_values)
  then show "fst ` set (tt_rows (tag_counts tagged)) = snd ` set tag_rows"
    by (simp only: fc sn)
  have c: "cnt t = card {pid. (pid, t) \<in> set tag_rows}" for t
  proof -
    have "set (map fst (filter (\<lambda>(p, t'). t' = t) U)) = {pid. (pid, t) \<in> set tag_rows}"
      by (auto simp: setU image_iff)
    then show ?thesis
      unfolding cnt_def by (simp only: length_remdups_card_conv)
  qed
  show "n = card {pid. (pid, t) \<in> set tag_rows}" if "(t, n) \<in> set (tt_rows (tag_counts tagged))"
  proof -
    from that have "(t, n) \<in> set counted" by (simp add: rows set_sort_values)
    then have "n = cnt t" by (auto simp: counted_def)
    then show ?thesis by (simp add: c)
  qed
  show "sorted_wrt tag_count_le (tt_rows (tag_counts tagged))"
    unfolding rows using tag_count_le_total tag_count_le_trans by (rule sorted_sort_values)
qed

lemma tag_counts_empty:
  "concat (map (\<lambda>(pid, tgs). map (\<lambda>t. (pid, t)) tgs) tagged) = [] \<Longrightarrow>
   tag_counts tagged = \<lparr>tt_columns = [''CB Tag Name'', ''CB Tag Count''], tt_rows = []\<rparr>"
  by (simp add: tag_counts_def)

lemma tag_counts_columns: "tt_columns (tag_counts tagged) = [''CB Tag Name'', ''CB Tag Count'']"
  by (simp add: tag_counts_def Let_def)

lemma tag_count_le_eq:
  "tag_count_le = (\<lambda>(t1, n1) (t2, n2). n2 < n1 \<or> (n1 = n2 \<and> t1 \<le> t2))"
  by (auto simp: tag_count_le_def fun_eq_iff)

text \<open>
  The tag counter on its own.  The tags table is computed by \<open>tag_counts\<close> from the
  identities of the canonical table paired with their final tag lists (lemmas
  \<open>transform_tags\<close> and \<open>transform_returns\<close>).  It always has the columns CB Tag Name and
  CB Tag Count; it has exactly one row per distinct tag of the final lists; the count of a
  tag is the number of distinct identities whose final list contains it; the rows are
  sorted by count descending, then by tag name ascending; and when no identity carries a
  tag the table has the two columns and no row.
\<close>

theorem tag_counts_correct:
  "tt_columns (tag_counts tagged) = [''CB Tag Name'', ''CB Tag Count''] \<and>
   distinct (map fst (tt_rows (tag_counts tagged))) \<and>
   fst ` set (tt_rows (tag_counts tagged)) = {t. \<exists>pid tgs. (pid, tgs) \<in> set tagged \<and> t \<in> set tgs} \<and>
   (\<forall>(t, n) \<in> set (tt_rows (tag_counts tagged)).
      n = card {pid. \<exists>tgs. (pid, tgs) \<in> set tagged \<and> t \<in> set tgs}) \<and>
   sorted_wrt (\<lambda>(t1, n1) (t2, n2). n2 < n1 \<or> (n1 = n2 \<and> t1 \<le> t2)) (tt_rows (tag_counts tagged)) \<and>
   ((\<forall>(pid, tgs) \<in> set tagged. tgs = []) \<longrightarrow>
      tag_counts tagged = \<lparr>tt_columns = [''CB Tag Name'', ''CB Tag Count''], tt_rows = []\<rparr>)"
proof -
  define tag_rows where "tag_rows = concat (map (\<lambda>(pid, tgs). map (\<lambda>t. (pid, t)) tgs) tagged)"
  have s: "set tag_rows = {(pid, t). \<exists>tgs. (pid, tgs) \<in> set tagged \<and> t \<in> set tgs}"
    unfolding tag_rows_def by (rule set_tag_rows)
  have s1: "snd ` set tag_rows = {t. \<exists>pid tgs. (pid, tgs) \<in> set tagged \<and> t \<in> set tgs}"
    unfolding s by force
  have s2: "{pid. (pid, t) \<in> set tag_rows} = {pid. \<exists>tgs. (pid, tgs) \<in> set tagged \<and> t \<in> set tgs}" for t
    unfolding s by auto
  have e: "(\<forall>(pid, tgs) \<in> set tagged. tgs = []) \<longrightarrow>
      tag_counts tagged = \<lparr>tt_columns = [''CB Tag Name'', ''CB Tag Count''], tt_rows = []\<rparr>"
    using tag_counts_empty [of tagged] tag_rows_empty [of tagged] by blast
  show ?thesis
  proof (cases "tag_rows = []")
    case True
    then have t: "tag_counts tagged = \<lparr>tt_columns = [''CB Tag Name'', ''CB Tag Count''], tt_rows = []\<rparr>"
      unfolding tag_rows_def by (rule tag_counts_empty)
    from True have "snd ` set tag_rows = {}" by simp
    with s1 have "{t. \<exists>pid tgs. (pid, tgs) \<in> set tagged \<and> t \<in> set tgs} = {}" by simp
    with e show ?thesis unfolding t by simp
  next
    case False
    then have ne: "concat (map (\<lambda>(pid, tgs). map (\<lambda>t. (pid, t)) tgs) tagged) \<noteq> []"
      by (simp add: tag_rows_def)
    note p = tag_counts_nonempty [OF ne, folded tag_rows_def]
    have c: "\<forall>(t, n) \<in> set (tt_rows (tag_counts tagged)).
      n = card {pid. \<exists>tgs. (pid, tgs) \<in> set tagged \<and> t \<in> set tgs}"
      using p(3) s2 by auto
    have srt: "sorted_wrt (\<lambda>(t1, n1) (t2, n2). n2 < n1 \<or> (n1 = n2 \<and> t1 \<le> t2))
        (tt_rows (tag_counts tagged))"
      using p(4) by (simp only: tag_count_le_eq)
    from tag_counts_columns [of tagged] p(1) p(2) [unfolded s1] c srt e show ?thesis
      by (intro conjI)
  qed
qed

theorem tag_counts_correct_witness:
  "example_tagged = [(''1'', [''Board'', ''Major Donor'']), (''5'', [''Major Donor'', ''Volunteer'']),
                     (''6'', [])] \<and>
   tt_rows (tag_counts example_tagged) = [(''Major Donor'', 2), (''Board'', 1), (''Volunteer'', 1)] \<and>
   2 = card {pid. \<exists>tgs. (pid, tgs) \<in> set example_tagged \<and> ''Major Donor'' \<in> set tgs} \<and>
   tag_counts [(''6'', [])] = \<lparr>tt_columns = [''CB Tag Name'', ''CB Tag Count''], tt_rows = []\<rparr>"
proof -
  have a: "example_tagged = [(''1'', [''Board'', ''Major Donor'']),
             (''5'', [''Major Donor'', ''Volunteer'']), (''6'', [])]"
    by code_simp
  have v: "tt_rows (tag_counts example_tagged) =
             [(''Major Donor'', 2), (''Board'', 1), (''Volunteer'', 1)]"
    by code_simp
  have mem: "(''Major Donor'', 2) \<in> set (tt_rows (tag_counts example_tagged))"
    unfolding v by simp
  note T = tag_counts_correct [of example_tagged]
  note c = T [THEN conjunct2, THEN conjunct2, THEN conjunct2, THEN conjunct1]
  from bspec [OF c mem]
  have n2: "2 = card {pid. \<exists>tgs. (pid, tgs) \<in> set example_tagged \<and> ''Major Donor'' \<in> set tgs}"
    by (simp only: prod.case)
  have e: "\<forall>(pid, tgs) \<in> set [(''6'', [] :: string list)]. tgs = []" by simp
  note E = tag_counts_correct [of "[(''6'', [])]"]
  note i = E [THEN conjunct2, THEN conjunct2, THEN conjunct2, THEN conjunct2, THEN conjunct2]
  from i e have n: "tag_counts [(''6'', [])] =
      \<lparr>tt_columns = [''CB Tag Name'', ''CB Tag Count''], tt_rows = []\<rparr>"
    by (rule mp)
  from a v n2 n show ?thesis by (intro conjI)
qed

text \<open>
  C8.  The claim holds of the tag counter, and of every run with at least one constituent
  row, by the three results above.  It fails on the run without a constituent row and
  without a valid address in the email table: no identity carries a tag, and the result is
  an error, not the empty tags table.  \<open>build_email_columns\<close> then returns a frame without
  columns, and \<open>transform\<close> raises a KeyError when it reads the column \<open>Patron ID\<close> of that
  frame, before it reaches the tag counter.  The donation aggregator and the tag counter
  build their empty frames with the columns named; \<open>build_email_columns\<close> does not.
\<close>

theorem transform_empty_run_raises:
  assumes "\<forall>r \<in> set emails. \<not> valid_candidate (standardize_email (e_email r))"
  shows "transform L [] emails donations mapping = Inl (KeyError ''Patron ID'')"
  using assms by (simp add: transform_def Let_def dedupe_empty build_email_columns_empty)

theorem transform_empty_run_raises_witness:
  "transform example_lib [] [] example_donations example_mapping = Inl (KeyError ''Patron ID'') \<and>
   \<not> valid_candidate (standardize_email (Some ''not an address'')) \<and>
   transform example_lib [] [\<lparr>e_patron_id = ''9'', e_email = Some ''not an address''\<rparr>]
     example_donations example_mapping = Inl (KeyError ''Patron ID'')"
proof -
  have e: "\<forall>r \<in> set ([] :: email_row list). \<not> valid_candidate (standardize_email (e_email r))"
    by simp
  have n: "\<not> valid_candidate (standardize_email (Some ''not an address''))" by code_simp
  then have i: "\<forall>r \<in> set [\<lparr>e_patron_id = ''9'', e_email = Some ''not an address''\<rparr>].
                 \<not> valid_candidate (standardize_email (e_email r))"
    by simp
  from transform_empty_run_raises [OF e, of example_lib example_donations example_mapping]
    transform_empty_run_raises [OF i, of example_lib example_donations example_mapping] n
  show ?thesis by (intro conjI)
qed

section \<open>Properties of the donation aggregator\<close>

lemma set_dropna:
  "((r, v, t) \<in> set (dropna L df)) = ((r, Some v, Some t) \<in> set df \<and> \<not> float_isnan L v)"
  by (induction df) (auto simp: dropna_def split: option.splits if_splits)

lemma set_qualifying_rows:
  "((r, v, t) \<in> set (qualifying_rows L donations)) =
     (\<exists>i<length (d_rows donations).
        r = d_rows donations ! i \<and>
        parse_currency_to_float L (d_amount r) = Some v \<and> \<not> float_isnan L v \<and>
        to_datetime L (map d_date (d_rows donations)) i = Some t \<and>
        (has_status donations \<longrightarrow> status_is_paid r))"
  by (auto simp: qualifying_rows_def Let_def set_dropna)

lemma donation_le_total: "donation_le L a b \<or> donation_le L b a"
proof -
  obtain p1 x1 t1 where a: "a = (p1, x1, t1)" by (cases a)
  obtain p2 x2 t2 where b: "b = (p2, x2, t2)" by (cases b)
  consider "p1 < p2" | "p2 < p1" | "p1 = p2" by (rule linorder_cases)
  then show ?thesis
  proof cases
    case 1
    then show ?thesis by (simp add: a b donation_le_def)
  next
    case 2
    then show ?thesis by (simp add: a b donation_le_def)
  next
    case 3
    have "t1 < t2 \<or> t2 < t1 \<or> t1 = t2" by linarith
    moreover have "float_value L x1 \<le> float_value L x2 \<or> float_value L x2 \<le> float_value L x1"
      by (rule linear)
    ultimately show ?thesis using 3 by (auto simp: a b donation_le_def)
  qed
qed

lemma donation_le_trans:
  assumes "donation_le L a b" "donation_le L b c"
  shows "donation_le L a c"
proof -
  obtain p1 x1 t1 where a: "a = (p1, x1, t1)" by (cases a)
  obtain p2 x2 t2 where b: "b = (p2, x2, t2)" by (cases b)
  obtain p3 x3 t3 where c: "c = (p3, x3, t3)" by (cases c)
  from assms(1) have ab: "p1 < p2 \<or>
      (p1 = p2 \<and> (t2 < t1 \<or> (t1 = t2 \<and> float_value L x2 \<le> float_value L x1)))"
    by (simp add: a b donation_le_def)
  from assms(2) have bc: "p2 < p3 \<or>
      (p2 = p3 \<and> (t3 < t2 \<or> (t2 = t3 \<and> float_value L x3 \<le> float_value L x2)))"
    by (simp add: b c donation_le_def)
  have "p1 < p3 \<or>
      (p1 = p3 \<and> (t3 < t1 \<or> (t1 = t3 \<and> float_value L x3 \<le> float_value L x1)))"
    using ab bc by (metis less_trans order_trans)
  then show ?thesis by (simp add: a c donation_le_def)
qed

lemma build_donation_metrics_unfold:
  fixes L :: "('f, 'v::linorder) pylib" and donations :: donations_table
  defines "df \<equiv> map (\<lambda>(r, x, t). (d_patron_id r, x, t)) (qualifying_rows L donations)"
  defines "F \<equiv> (\<lambda>pid. (pid,
      format_currency L (Some (float_sum L (map (\<lambda>(p, x, t). x) (filter (\<lambda>(p, x, t). p = pid) df)))),
      (case find (\<lambda>(p, x, t). p = pid) (sort_values (donation_le L) df) of
         None \<Rightarrow> [] | Some (p, x, t) \<Rightarrow> date_isoformat L t),
      (case find (\<lambda>(p, x, t). p = pid) (sort_values (donation_le L) df) of
         None \<Rightarrow> [] | Some (p, x, t) \<Rightarrow> format_currency L (Some x))))"
  shows "build_donation_metrics L donations = map F (sort (remdups (map fst df)))"
proof (cases "df = []")
  case True
  then have "build_donation_metrics L donations = []"
    unfolding build_donation_metrics_def df_def Let_def by (simp only: if_True simp_thms)
  with True show ?thesis by simp
next
  case False
  then show ?thesis
    unfolding build_donation_metrics_def df_def F_def Let_def by (simp only: if_False simp_thms)
qed

lemma donation_df_keys:
  "map fst (map (\<lambda>(r, x, t). (d_patron_id r, x, t)) Q) = map (\<lambda>(r, x, t). d_patron_id r) Q"
  by (induction Q) auto

lemma build_donation_metrics_keys:
  "map fst (build_donation_metrics L donations) =
     sort (remdups (map (\<lambda>(r, x, t). d_patron_id r) (qualifying_rows L donations)))"
proof -
  have "map fst (map (\<lambda>pid. (pid, G pid)) pids) = pids" for G :: "string \<Rightarrow> 'z" and pids
    by (induction pids) auto
  then show ?thesis
    by (simp only: build_donation_metrics_unfold donation_df_keys)
qed

lemma build_donation_metrics_distinct: "distinct (map fst (build_donation_metrics L donations))"
  by (simp add: build_donation_metrics_keys)

lemma build_donation_metrics_ids:
  "fst ` set (build_donation_metrics L donations) =
     (\<lambda>(r, x, t). d_patron_id r) ` set (qualifying_rows L donations)"
proof -
  have "fst ` set (build_donation_metrics L donations) =
        set (map fst (build_donation_metrics L donations))" by simp
  also have "\<dots> = (\<lambda>(r, x, t). d_patron_id r) ` set (qualifying_rows L donations)"
    unfolding build_donation_metrics_keys by simp
  finally show ?thesis .
qed

lemma build_donation_metrics_row:
  fixes L :: "('f, 'v::linorder) pylib" and donations :: donations_table
  assumes "(pid, lifetime, recent_date, recent_amount) \<in> set (build_donation_metrics L donations)"
  defines "df \<equiv> map (\<lambda>(r, x, t). (d_patron_id r, x, t)) (qualifying_rows L donations)"
  shows "lifetime = format_currency L (Some (float_sum L
            (map (\<lambda>(p, x, t). x) (filter (\<lambda>(p, x, t). p = pid) df))))"
    and "\<exists>x t. (pid, x, t) \<in> set df \<and>
           recent_date = date_isoformat L t \<and> recent_amount = format_currency L (Some x) \<and>
           (\<forall>y \<in> set df. fst y = pid \<longrightarrow> y = (pid, x, t) \<or> donation_le L (pid, x, t) y)"
proof -
  define srt where "srt = sort_values (donation_le L) df"
  define F where "F = (\<lambda>pid. (pid,
      format_currency L (Some (float_sum L (map (\<lambda>(p, x, t). x) (filter (\<lambda>(p, x, t). p = pid) df)))),
      (case find (\<lambda>(p, x, t). p = pid) srt of
         None \<Rightarrow> [] | Some (p, x, t) \<Rightarrow> date_isoformat L t),
      (case find (\<lambda>(p, x, t). p = pid) srt of
         None \<Rightarrow> [] | Some (p, x, t) \<Rightarrow> format_currency L (Some x))))"
  have u: "build_donation_metrics L donations = map F (sort (remdups (map fst df)))"
    unfolding F_def srt_def df_def by (rule build_donation_metrics_unfold)
  from assms(1) obtain q where q: "q \<in> set (sort (remdups (map fst df)))"
      "(pid, lifetime, recent_date, recent_amount) = F q"
    unfolding u by auto
  from q(2) have "q = pid" by (simp add: F_def)
  with q have row:
    "pid \<in> set (sort (remdups (map fst df)))"
    "lifetime = format_currency L (Some (float_sum L
            (map (\<lambda>(p, x, t). x) (filter (\<lambda>(p, x, t). p = pid) df))))"
    "recent_date = (case find (\<lambda>(p, x, t). p = pid) srt of
                      None \<Rightarrow> [] | Some (p, x, t) \<Rightarrow> date_isoformat L t)"
    "recent_amount = (case find (\<lambda>(p, x, t). p = pid) srt of
                      None \<Rightarrow> [] | Some (p, x, t) \<Rightarrow> format_currency L (Some x))"
    by (simp_all add: F_def)
  show "lifetime = format_currency L (Some (float_sum L
            (map (\<lambda>(p, x, t). x) (filter (\<lambda>(p, x, t). p = pid) df))))"
    by (rule row(2))
  have sorted: "sorted_wrt (donation_le L) srt"
    unfolding srt_def using donation_le_total donation_le_trans by (rule sorted_sort_values)
  have set_srt: "set srt = set df" by (simp add: srt_def set_sort_values)
  from row(1) have "pid \<in> fst ` set df" by simp
  then have "\<exists>y \<in> set srt. (\<lambda>(p, x, t). p = pid) y" unfolding set_srt by force
  then obtain y where fy: "find (\<lambda>(p, x, t). p = pid) srt = Some y"
    by (cases "find (\<lambda>(p, x, t). p = pid) srt") (auto simp: find_None_iff)
  from find_sorted_min [OF sorted fy]
  have y: "(\<lambda>(p, x, t). p = pid) y" "y \<in> set srt"
    "\<forall>z \<in> set srt. (\<lambda>(p, x, t). p = pid) z \<longrightarrow> z = y \<or> donation_le L y z"
    by auto
  obtain x t where yx: "y = (pid, x, t)" using y(1) by (cases y) auto
  have "\<forall>z \<in> set df. fst z = pid \<longrightarrow> z = (pid, x, t) \<or> donation_le L (pid, x, t) z"
    using y(3) unfolding set_srt yx by auto
  moreover have "(pid, x, t) \<in> set df" using y(2) unfolding set_srt yx .
  moreover have "recent_date = date_isoformat L t" using row(3) fy yx by simp
  moreover have "recent_amount = format_currency L (Some x)" using row(4) fy yx by simp
  ultimately show "\<exists>x t. (pid, x, t) \<in> set df \<and>
           recent_date = date_isoformat L t \<and> recent_amount = format_currency L (Some x) \<and>
           (\<forall>y \<in> set df. fst y = pid \<longrightarrow> y = (pid, x, t) \<or> donation_le L (pid, x, t) y)"
    by blast
qed

lemma donation_df_amounts:
  "map (\<lambda>(p, x, t). x) (filter (\<lambda>(p, x, t). p = pid) (map (\<lambda>(r, x, t). (d_patron_id r, x, t)) Q)) =
   map (\<lambda>(r, v, t). v) (filter (\<lambda>(r, v, t). d_patron_id r = pid) Q)"
  by (induction Q) auto

lemma donation_df_member:
  "((pid, x, t) \<in> set (map (\<lambda>(r, x, t). (d_patron_id r, x, t)) Q)) =
     (\<exists>r. (r, x, t) \<in> set Q \<and> d_patron_id r = pid)"
  by (induction Q) auto

lemma qualifying_not_nan: "(r, v, t) \<in> set (qualifying_rows L donations) \<Longrightarrow> \<not> float_isnan L v"
  unfolding set_qualifying_rows by blast

text \<open>
  C5.  A donation row contributes to the aggregation if and only if its amount parses to
  a number, its date parses, and, when the table has a Status column, its status is
  \<open>paid\<close> in any casing; without the column no row is filtered by status.  The identities
  with metrics are those with a contributing row, one row each.  The most-recent pair of an
  identity is taken from a contributing row of the identity with the latest date and, among
  the rows of that date, the largest amount; it is that row's date in ISO calendar form and
  its amount formatted as currency.
\<close>

theorem build_donation_metrics_most_recent:
  fixes L :: "('f, 'v::linorder) pylib"
  shows
   "(\<forall>r v t. ((r, v, t) \<in> set (qualifying_rows L donations)) =
       (\<exists>i<length (d_rows donations).
          r = d_rows donations ! i \<and>
          parse_currency_to_float L (d_amount r) = Some v \<and> \<not> float_isnan L v \<and>
          to_datetime L (map d_date (d_rows donations)) i = Some t \<and>
          (has_status donations \<longrightarrow>
             lower (case d_status r of None \<Rightarrow> [] | Some s \<Rightarrow> s) = ''paid''))) \<and>
    distinct (map fst (build_donation_metrics L donations)) \<and>
    fst ` set (build_donation_metrics L donations) =
      (\<lambda>(r, v, t). d_patron_id r) ` set (qualifying_rows L donations) \<and>
    (\<forall>(pid, lifetime, recent_date, recent_amount) \<in> set (build_donation_metrics L donations).
       \<exists>(r, v, t) \<in> set (qualifying_rows L donations).
          d_patron_id r = pid \<and>
          recent_date = date_isoformat L t \<and>
          recent_amount = ''$'' @ format_comma_2f L v \<and>
          (\<forall>(r', v', t') \<in> set (qualifying_rows L donations).
             d_patron_id r' = pid \<longrightarrow>
             t' < t \<or> (t' = t \<and> float_value L v' \<le> float_value L v)))"
proof -
  define Q where "Q = qualifying_rows L donations"
  define df where "df = map (\<lambda>(r, x, t). (d_patron_id r, x, t)) Q"
  have A: "\<forall>r v t. ((r, v, t) \<in> set (qualifying_rows L donations)) =
       (\<exists>i<length (d_rows donations).
          r = d_rows donations ! i \<and>
          parse_currency_to_float L (d_amount r) = Some v \<and> \<not> float_isnan L v \<and>
          to_datetime L (map d_date (d_rows donations)) i = Some t \<and>
          (has_status donations \<longrightarrow>
             lower (case d_status r of None \<Rightarrow> [] | Some s \<Rightarrow> s) = ''paid''))"
    by (simp only: set_qualifying_rows status_is_paid_def) simp
  have D: "\<exists>(r, v, t) \<in> set Q.
          d_patron_id r = pid \<and>
          recent_date = date_isoformat L t \<and>
          recent_amount = ''$'' @ format_comma_2f L v \<and>
          (\<forall>(r', v', t') \<in> set Q.
             d_patron_id r' = pid \<longrightarrow>
             t' < t \<or> (t' = t \<and> float_value L v' \<le> float_value L v))"
    if row: "(pid, lifetime, recent_date, recent_amount) \<in> set (build_donation_metrics L donations)"
    for pid lifetime recent_date recent_amount
  proof -
    from build_donation_metrics_row(2) [OF row, folded Q_def, folded df_def]
    obtain x t where xt: "(pid, x, t) \<in> set df" "recent_date = date_isoformat L t"
      "recent_amount = format_currency L (Some x)"
      "\<forall>y \<in> set df. fst y = pid \<longrightarrow> y = (pid, x, t) \<or> donation_le L (pid, x, t) y"
      by blast
    from xt(1) obtain r where r: "(r, x, t) \<in> set Q" "d_patron_id r = pid"
      unfolding df_def donation_df_member by blast
    from r(1) have "\<not> float_isnan L x" unfolding Q_def by (rule qualifying_not_nan)
    then have amt: "recent_amount = ''$'' @ format_comma_2f L x"
      using xt(3) by (simp add: format_currency_def)
    have best: "t' < t \<or> (t' = t \<and> float_value L v' \<le> float_value L x)"
      if "(r', v', t') \<in> set Q" "d_patron_id r' = pid" for r' v' t'
    proof -
      from that have "(pid, v', t') \<in> set df" unfolding df_def donation_df_member by blast
      with xt(4) have "(pid, v', t') = (pid, x, t) \<or> donation_le L (pid, x, t) (pid, v', t')"
        by auto
      then show ?thesis by (auto simp: donation_le_def)
    qed
    from r xt(2) amt best show ?thesis by blast
  qed
  from A build_donation_metrics_distinct [of L donations] build_donation_metrics_ids [of L donations] D
  show ?thesis unfolding Q_def by blast
qed

theorem build_donation_metrics_most_recent_witness:
  "build_donation_metrics example_lib example_donations =
     [(''2'', ''$50.00'', ''2024-03-01'', ''$50.00'')] \<and>
   build_donation_metrics example_lib example_donations_tie =
     [(''2'', ''$70.00'', ''2024-03-01'', ''$50.00'')] \<and>
   (\<exists>(r, v, t) \<in> set (qualifying_rows example_lib example_donations_tie).
      d_patron_id r = ''2'' \<and>
      ''2024-03-01'' = date_isoformat example_lib t \<and>
      ''$50.00'' = ''$'' @ format_comma_2f example_lib v \<and>
      (\<forall>(r', v', t') \<in> set (qualifying_rows example_lib example_donations_tie).
         d_patron_id r' = ''2'' \<longrightarrow>
         t' < t \<or> (t' = t \<and> float_value example_lib v' \<le> float_value example_lib v)))"
proof -
  have a: "build_donation_metrics example_lib example_donations =
     [(''2'', ''$50.00'', ''2024-03-01'', ''$50.00'')]"
    by code_simp
  have b: "build_donation_metrics example_lib example_donations_tie =
     [(''2'', ''$70.00'', ''2024-03-01'', ''$50.00'')]"
    by code_simp
  have mem: "(''2'', ''$70.00'', ''2024-03-01'', ''$50.00'')
               \<in> set (build_donation_metrics example_lib example_donations_tie)"
    unfolding b by simp
  note T = build_donation_metrics_most_recent [of example_lib example_donations_tie]
  note c = T [THEN conjunct2, THEN conjunct2, THEN conjunct2]
  from bspec [OF c mem]
  have d: "\<exists>(r, v, t) \<in> set (qualifying_rows example_lib example_donations_tie).
      d_patron_id r = ''2'' \<and>
      ''2024-03-01'' = date_isoformat example_lib t \<and>
      ''$50.00'' = ''$'' @ format_comma_2f example_lib v \<and>
      (\<forall>(r', v', t') \<in> set (qualifying_rows example_lib example_donations_tie).
         d_patron_id r' = ''2'' \<longrightarrow>
         t' < t \<or> (t' = t \<and> float_value example_lib v' \<le> float_value example_lib v))"
    by (simp only: prod.case)
  from a b d show ?thesis by (intro conjI)
qed

lemma filter_eq_distinct:
  "distinct ps \<Longrightarrow> filter (\<lambda>p. p = a) ps = (if a \<in> set ps then [a] else [])"
  by (induction ps) auto

lemma sum_list_delta:
  fixes b :: "'n::comm_monoid_add"
  shows "distinct ks \<Longrightarrow>
    sum_list (map (\<lambda>k. if k = a then b else 0) ks) = (if a \<in> set ks then b else 0)"
  by (induction ks) auto

lemma sum_list_partition:
  fixes f :: "'a \<Rightarrow> 'n::comm_monoid_add"
  assumes "distinct ks"
  shows "key ` set xs \<subseteq> set ks \<Longrightarrow>
    sum_list (map (\<lambda>k. sum_list (map f (filter (\<lambda>x. key x = k) xs))) ks) = sum_list (map f xs)"
proof (induction xs)
  case Nil
  show ?case by simp
next
  case (Cons x xs)
  have "sum_list (map (\<lambda>k. sum_list (map f (filter (\<lambda>y. key y = k) (x # xs)))) ks) =
        sum_list (map (\<lambda>k. (if k = key x then f x else 0) +
                              sum_list (map f (filter (\<lambda>y. key y = k) xs))) ks)"
    by (rule arg_cong [where f = sum_list], rule map_cong) auto
  also have "\<dots> = sum_list (map (\<lambda>k. if k = key x then f x else 0) ks) +
        sum_list (map (\<lambda>k. sum_list (map f (filter (\<lambda>y. key y = k) xs))) ks)"
    by (rule sum_list_addf)
  also have "\<dots> = f x + sum_list (map f xs)"
    using Cons assms by (simp add: sum_list_delta)
  finally show ?case by simp
qed

lemma identity_amounts_df:
  "map (\<lambda>(p, x, t). x) (filter (\<lambda>(p, x, t). p = pid)
      (map (\<lambda>(r, x, t). (d_patron_id r, x, t)) (qualifying_rows L donations))) =
   identity_amounts L donations pid"
  by (simp only: identity_amounts_def donation_df_amounts)

lemma identity_amounts_empty:
  "(identity_amounts L donations pid = []) =
     (pid \<notin> (\<lambda>(r, v, t). d_patron_id r) ` set (qualifying_rows L donations))"
  by (auto simp: identity_amounts_def filter_empty_conv image_iff)

lemma build_donation_metrics_filter:
  fixes L :: "('f, 'v::linorder) pylib" and donations :: donations_table
  assumes "identity_amounts L donations pid \<noteq> []"
  shows "\<exists>recent_date recent_amount.
     filter (\<lambda>row. fst row = pid) (build_donation_metrics L donations) =
       [(pid, format_currency L (Some (float_sum L (identity_amounts L donations pid))),
         recent_date, recent_amount)]"
proof -
  define df where "df = map (\<lambda>(r, x, t). (d_patron_id r, x, t)) (qualifying_rows L donations)"
  define F where "F = (\<lambda>pid. (pid,
      format_currency L (Some (float_sum L (map (\<lambda>(p, x, t). x) (filter (\<lambda>(p, x, t). p = pid) df)))),
      (case find (\<lambda>(p, x, t). p = pid) (sort_values (donation_le L) df) of
         None \<Rightarrow> [] | Some (p, x, t) \<Rightarrow> date_isoformat L t),
      (case find (\<lambda>(p, x, t). p = pid) (sort_values (donation_le L) df) of
         None \<Rightarrow> [] | Some (p, x, t) \<Rightarrow> format_currency L (Some x))))"
  define pids where "pids = sort (remdups (map fst df))"
  have u: "build_donation_metrics L donations = map F pids"
    unfolding F_def df_def pids_def by (rule build_donation_metrics_unfold)
  have dp: "distinct pids" by (simp add: pids_def)
  have "pid \<in> (\<lambda>(r, v, t). d_patron_id r) ` set (qualifying_rows L donations)"
    using assms by (simp add: identity_amounts_empty)
  then have mem: "pid \<in> set pids"
    using build_donation_metrics_ids [of L donations] unfolding u
    by (simp add: F_def image_image)
  have fstF: "fst (F p) = p" for p by (simp add: F_def)
  have "filter (\<lambda>row. fst row = pid) (map F pids) = map F (filter (\<lambda>p. p = pid) pids)"
    by (simp add: filter_map comp_def fstF)
  also have "\<dots> = [F pid]" using dp mem by (simp add: filter_eq_distinct)
  finally have "filter (\<lambda>row. fst row = pid) (build_donation_metrics L donations) = [F pid]"
    by (simp add: u)
  moreover have "fst (snd (F pid)) =
      format_currency L (Some (float_sum L (identity_amounts L donations pid)))"
    unfolding F_def df_def fst_conv snd_conv identity_amounts_df by (rule refl)
  moreover have "fst (F pid) = pid" by (rule fstF)
  ultimately show ?thesis by (cases "F pid") auto
qed

lemma lifetime_totals_parsed_values:
  fixes L :: "('f, 'v::linorder) pylib" and donations :: donations_table
    and val :: "'f \<Rightarrow> 'n"
  assumes rt: "\<And>pid. identity_amounts L donations pid \<noteq> [] \<Longrightarrow>
      \<not> float_isnan L (float_sum L (identity_amounts L donations pid)) \<and>
      map_option val (parse_currency_to_float L
          (Some (''$'' @ format_comma_2f L (float_sum L (identity_amounts L donations pid))))) =
        Some (val (float_sum L (identity_amounts L donations pid)))"
  shows "map val (lifetime_totals_parsed L donations) =
     map (\<lambda>pid. val (float_sum L (identity_amounts L donations pid)))
       (map fst (build_donation_metrics L donations))"
proof -
  define G where "G = (\<lambda>row :: string \<times> string \<times> string \<times> string.
      case row of (pid, lifetime, recent_date, recent_amount) \<Rightarrow>
        (case parse_currency_to_float L (Some lifetime) of None \<Rightarrow> [] | Some v \<Rightarrow> [v]))"
  have l: "lifetime_totals_parsed L donations = concat (map G (build_donation_metrics L donations))"
    unfolding lifetime_totals_parsed_def G_def by (rule refl)
  have row: "map val (G row) = [val (float_sum L (identity_amounts L donations (fst row)))]"
    if "row \<in> set (build_donation_metrics L donations)" for row
  proof -
    obtain pid lifetime rd ra where r: "row = (pid, lifetime, rd, ra)" by (cases row)
    from that have "pid \<in> fst ` set (build_donation_metrics L donations)"
      unfolding r by force
    then have ne: "identity_amounts L donations pid \<noteq> []"
      by (simp add: build_donation_metrics_ids identity_amounts_empty)
    from build_donation_metrics_filter [OF ne] obtain rd' ra' where
      f: "filter (\<lambda>row. fst row = pid) (build_donation_metrics L donations) =
       [(pid, format_currency L (Some (float_sum L (identity_amounts L donations pid))), rd', ra')]"
      by blast
    from that have "row \<in> set (filter (\<lambda>row. fst row = pid) (build_donation_metrics L donations))"
      by (simp add: r)
    then have lf: "lifetime = format_currency L (Some (float_sum L (identity_amounts L donations pid)))"
      unfolding f r by simp
    from rt [OF ne] have nn: "\<not> float_isnan L (float_sum L (identity_amounts L donations pid))"
      and pb: "map_option val (parse_currency_to_float L
          (Some (''$'' @ format_comma_2f L (float_sum L (identity_amounts L donations pid))))) =
        Some (val (float_sum L (identity_amounts L donations pid)))"
      by blast+
    from nn lf have lf': "lifetime = ''$'' @ format_comma_2f L (float_sum L (identity_amounts L donations pid))"
      by (simp add: format_currency_def)
    from pb obtain v where "parse_currency_to_float L (Some lifetime) = Some v"
      "val v = val (float_sum L (identity_amounts L donations pid))"
      unfolding lf' by (auto simp: map_option_case split: option.splits)
    then show ?thesis by (simp add: G_def r)
  qed
  have "map val (concat (map G rows)) =
        map (\<lambda>pid. val (float_sum L (identity_amounts L donations pid))) (map fst rows)"
    if "set rows \<subseteq> set (build_donation_metrics L donations)" for rows
    using that
  proof (induction rows)
    case Nil
    show ?case by simp
  next
    case (Cons r rows)
    then have "r \<in> set (build_donation_metrics L donations)" by simp
    from row [OF this] Cons show ?case by simp
  qed
  then show ?thesis unfolding l by simp
qed

lemma identity_amounts_pairs:
  "identity_amounts L donations pid =
     map snd (filter (\<lambda>(p, v). p = pid)
       (map (\<lambda>(r, v, t). (d_patron_id r, v)) (qualifying_rows L donations)))"
proof -
  have "map (\<lambda>(r, v, t). v) (filter (\<lambda>(r, v, t). d_patron_id r = pid) Q) =
        map snd (filter (\<lambda>(p, v). p = pid) (map (\<lambda>(r, v, t). (d_patron_id r, v)) Q))"
    for Q :: "(donation \<times> 'a \<times> int) list"
    by (induction Q) auto
  then show ?thesis by (simp only: identity_amounts_def)
qed

text \<open>
  C6 (as the code has it).  A transaction qualifies when its amount parses to a number,
  its date parses and, with a Status column, its status is \<open>paid\<close> in any casing.  An
  identity has a row of metrics exactly when it has a qualifying transaction, and it has
  one row; the lifetime total of the row is the currency rendering (a leading \<open>$\<close>, then
  the amount with thousands separators and two decimals) of the float sum of the
  identity's qualifying amounts, taken in file order.  Under any numeric reading \<open>val\<close> of
  the floats for which these sums are exact and each rendered total parses back to its
  value, the lifetime totals parsed back to numbers sum to the sum of all qualifying
  amounts.  A paid row whose date or amount does not parse is not part of either sum.
\<close>

theorem build_donation_metrics_lifetime:
  fixes L :: "('f, 'v::linorder) pylib" and val :: "'f \<Rightarrow> 'n::comm_monoid_add"
  shows
   "(\<forall>r v t. ((r, v, t) \<in> set (qualifying_rows L donations)) =
       (\<exists>i<length (d_rows donations).
          r = d_rows donations ! i \<and>
          parse_currency_to_float L (d_amount r) = Some v \<and> \<not> float_isnan L v \<and>
          to_datetime L (map d_date (d_rows donations)) i = Some t \<and>
          (has_status donations \<longrightarrow>
             lower (case d_status r of None \<Rightarrow> [] | Some s \<Rightarrow> s) = ''paid''))) \<and>
    (\<forall>pid.
       if identity_amounts L donations pid = []
       then pid \<notin> fst ` set (build_donation_metrics L donations)
       else \<exists>recent_date recent_amount.
              filter (\<lambda>row. fst row = pid) (build_donation_metrics L donations) =
                [(pid, format_currency L (Some (float_sum L (identity_amounts L donations pid))),
                  recent_date, recent_amount)]) \<and>
    (\<forall>x. format_currency L (Some x) =
            (if float_isnan L x then [] else ''$'' @ format_comma_2f L x)) \<and>
    ((\<forall>pid. identity_amounts L donations pid \<noteq> [] \<longrightarrow>
         val (float_sum L (identity_amounts L donations pid)) =
           sum_list (map val (identity_amounts L donations pid)) \<and>
         \<not> float_isnan L (float_sum L (identity_amounts L donations pid)) \<and>
         map_option val (parse_currency_to_float L
            (Some (''$'' @ format_comma_2f L (float_sum L (identity_amounts L donations pid))))) =
           Some (val (float_sum L (identity_amounts L donations pid)))) \<longrightarrow>
      sum_list (map val (lifetime_totals_parsed L donations)) =
        sum_list (map (\<lambda>(r, v, t). val v) (qualifying_rows L donations)))"
proof -
  define Q where "Q = qualifying_rows L donations"
  define key where "key = (\<lambda>(r :: donation, v :: 'f, t :: int). d_patron_id r)"
  define pids where "pids = map fst (build_donation_metrics L donations)"
  have A: "\<forall>r v t. ((r, v, t) \<in> set (qualifying_rows L donations)) =
       (\<exists>i<length (d_rows donations).
          r = d_rows donations ! i \<and>
          parse_currency_to_float L (d_amount r) = Some v \<and> \<not> float_isnan L v \<and>
          to_datetime L (map d_date (d_rows donations)) i = Some t \<and>
          (has_status donations \<longrightarrow>
             lower (case d_status r of None \<Rightarrow> [] | Some s \<Rightarrow> s) = ''paid''))"
    by (simp only: set_qualifying_rows status_is_paid_def) simp
  have B: "if identity_amounts L donations pid = []
       then pid \<notin> fst ` set (build_donation_metrics L donations)
       else \<exists>recent_date recent_amount.
              filter (\<lambda>row. fst row = pid) (build_donation_metrics L donations) =
                [(pid, format_currency L (Some (float_sum L (identity_amounts L donations pid))),
                  recent_date, recent_amount)]" for pid
  proof (cases "identity_amounts L donations pid = []")
    case True
    then show ?thesis by (simp add: build_donation_metrics_ids identity_amounts_empty)
  next
    case False
    from build_donation_metrics_filter [OF False] False show ?thesis by simp
  qed
  have C: "\<forall>x. format_currency L (Some x) =
            (if float_isnan L x then [] else ''$'' @ format_comma_2f L x)"
    by (simp add: format_currency_def)
  have D: "sum_list (map val (lifetime_totals_parsed L donations)) =
        sum_list (map (\<lambda>(r, v, t). val v) (qualifying_rows L donations))"
    if H: "\<forall>pid. identity_amounts L donations pid \<noteq> [] \<longrightarrow>
         val (float_sum L (identity_amounts L donations pid)) =
           sum_list (map val (identity_amounts L donations pid)) \<and>
         \<not> float_isnan L (float_sum L (identity_amounts L donations pid)) \<and>
         map_option val (parse_currency_to_float L
            (Some (''$'' @ format_comma_2f L (float_sum L (identity_amounts L donations pid))))) =
           Some (val (float_sum L (identity_amounts L donations pid)))"
  proof -
    have dp: "distinct pids" unfolding pids_def by (rule build_donation_metrics_distinct)
    have sp: "set pids = key ` set Q"
      unfolding pids_def key_def Q_def using build_donation_metrics_ids [of L donations] by simp
    have "map val (lifetime_totals_parsed L donations) =
          map (\<lambda>pid. val (float_sum L (identity_amounts L donations pid))) pids"
      unfolding pids_def using H by (intro lifetime_totals_parsed_values) blast
    also have "\<dots> = map (\<lambda>pid. sum_list (map (\<lambda>(r, v, t). val v) (filter (\<lambda>x. key x = pid) Q))) pids"
    proof (rule map_cong [OF refl])
      fix pid assume "pid \<in> set pids"
      then have "pid \<in> (\<lambda>(r, v, t). d_patron_id r) ` set (qualifying_rows L donations)"
        unfolding sp key_def Q_def .
      then have ne: "identity_amounts L donations pid \<noteq> []"
        by (simp add: identity_amounts_empty)
      have "map val (identity_amounts L donations pid) =
            map (\<lambda>(r, v, t). val v) (filter (\<lambda>x. key x = pid) Q)"
        unfolding identity_amounts_def Q_def key_def
        by (simp add: comp_def case_prod_unfold)
      with H ne show "val (float_sum L (identity_amounts L donations pid)) =
            sum_list (map (\<lambda>(r, v, t). val v) (filter (\<lambda>x. key x = pid) Q))"
        by simp
    qed
    finally have "sum_list (map val (lifetime_totals_parsed L donations)) =
        sum_list (map (\<lambda>pid. sum_list (map (\<lambda>(r, v, t). val v) (filter (\<lambda>x. key x = pid) Q))) pids)"
      by simp
    also have "\<dots> = sum_list (map (\<lambda>(r, v, t). val v) Q)"
      using dp by (rule sum_list_partition) (simp add: sp)
    finally show ?thesis unfolding Q_def .
  qed
  from A B C D show ?thesis by blast
qed

theorem build_donation_metrics_lifetime_witness:
  "identity_amounts example_lib example_donations_tie ''2'' = [20, 50] \<and>
   build_donation_metrics example_lib example_donations_tie =
     [(''2'', ''$70.00'', ''2024-03-01'', ''$50.00'')] \<and>
   lifetime_totals_parsed example_lib example_donations_tie = [70] \<and>
   sum_list (map (\<lambda>x. x) (lifetime_totals_parsed example_lib example_donations_tie)) =
     sum_list (map (\<lambda>(r, v, t). v) (qualifying_rows example_lib example_donations_tie)) \<and>
   sum_list (map (\<lambda>(r, v, t). v) (qualifying_rows example_lib example_donations_tie)) = 70"
proof -
  have q: "map (\<lambda>(r, v, t). (d_patron_id r, v)) (qualifying_rows example_lib example_donations_tie) =
             [(''2'', 20), (''2'', 50)]"
    by code_simp
  have ia: "identity_amounts example_lib example_donations_tie pid =
              (if pid = ''2'' then [20, 50] else [])" for pid
    unfolding identity_amounts_pairs q by auto
  have a2: "identity_amounts example_lib example_donations_tie ''2'' = [20, 50]"
    by (simp add: ia)
  have b: "build_donation_metrics example_lib example_donations_tie =
     [(''2'', ''$70.00'', ''2024-03-01'', ''$50.00'')]"
    by code_simp
  have l: "lifetime_totals_parsed example_lib example_donations_tie = [70]"
    by code_simp
  have s: "sum_list (map (\<lambda>(r, v, t). v) (qualifying_rows example_lib example_donations_tie)) = 70"
    by code_simp
  have fs: "float_sum example_lib [20, 50] = 70" by code_simp
  have nn: "\<not> float_isnan example_lib 70" by code_simp
  have rt: "map_option (\<lambda>x. x) (parse_currency_to_float example_lib
              (Some (''$'' @ format_comma_2f example_lib 70))) = Some 70"
    by code_simp
  have H: "\<forall>pid. identity_amounts example_lib example_donations_tie pid \<noteq> [] \<longrightarrow>
         (\<lambda>x. x) (float_sum example_lib (identity_amounts example_lib example_donations_tie pid)) =
           sum_list (map (\<lambda>x. x) (identity_amounts example_lib example_donations_tie pid)) \<and>
         \<not> float_isnan example_lib
             (float_sum example_lib (identity_amounts example_lib example_donations_tie pid)) \<and>
         map_option (\<lambda>x. x) (parse_currency_to_float example_lib
            (Some (''$'' @ format_comma_2f example_lib
               (float_sum example_lib (identity_amounts example_lib example_donations_tie pid))))) =
           Some ((\<lambda>x. x)
             (float_sum example_lib (identity_amounts example_lib example_donations_tie pid)))"
  proof (intro allI impI)
    fix pid assume "identity_amounts example_lib example_donations_tie pid \<noteq> []"
    then have p: "identity_amounts example_lib example_donations_tie pid = [20, 50]"
      by (simp add: ia split: if_splits)
    show "(\<lambda>x. x) (float_sum example_lib (identity_amounts example_lib example_donations_tie pid)) =
           sum_list (map (\<lambda>x. x) (identity_amounts example_lib example_donations_tie pid)) \<and>
         \<not> float_isnan example_lib
             (float_sum example_lib (identity_amounts example_lib example_donations_tie pid)) \<and>
         map_option (\<lambda>x. x) (parse_currency_to_float example_lib
            (Some (''$'' @ format_comma_2f example_lib
               (float_sum example_lib (identity_amounts example_lib example_donations_tie pid))))) =
           Some ((\<lambda>x. x)
             (float_sum example_lib (identity_amounts example_lib example_donations_tie pid)))"
      unfolding p fs using nn rt by simp
  qed
  note T = build_donation_metrics_lifetime
    [where L = example_lib and donations = example_donations_tie and val = "\<lambda>x :: int. x"]
  note c = T [THEN conjunct2, THEN conjunct2, THEN conjunct2]
  from c H have e: "sum_list (map (\<lambda>x. x) (lifetime_totals_parsed example_lib example_donations_tie)) =
     sum_list (map (\<lambda>(r, v, t). (\<lambda>x. x) v) (qualifying_rows example_lib example_donations_tie))"
    by (rule mp)
  from a2 b l e s show ?thesis by (intro conjI)
qed

text \<open>
  C6 as stated fails: identity 2 has two paid donations, $50 and $20, and the date of the
  second does not parse.  Its lifetime total is \<open>$50.00\<close>, which parses back to 50, while
  the paid amounts of the raw input sum to 70.
\<close>

theorem lifetime_total_unparsed_date_counterexample:
  "build_donation_metrics example_lib example_donations_bad_date =
     [(''2'', ''$50.00'', ''2024-03-01'', ''$50.00'')] \<and>
   float_sum example_lib (lifetime_totals_parsed example_lib example_donations_bad_date) = 50 \<and>
   float_sum example_lib (spec_paid_amounts example_lib example_donations_bad_date) = 70"
  by code_simp

end
